theory Spec2Isabelle
  imports Main "HOL-Library.Word" "HOL-Library.AList" "HOL-Library.Char_ord"
    "HOL-Library.List_Lexorder"
begin

section \<open>The Nutmeg binary reader of bag/simulation/nutbin.py\<close>

text \<open>
  A shallow embedding of \<^verbatim>\<open>NutBinParser\<close>. Python exceptions are values of
  \<open>py_error\<close>, a fallible function returns \<open>py_error + 'a\<close> with \<open>Inl\<close> the
  exception. A Python \<^verbatim>\<open>dict\<close> is an association list in insertion order, written
  with \<open>AList.update\<close> (an existing key keeps its place, a new key goes last) and read
  with \<open>map_of\<close>.
\<close>

subsection \<open>Exceptions and numpy arrays\<close>

datatype py_error =
    ValueError string
  | IndexError
  | KeyError string
  | AttributeError
  | NotImplementedError
  | UnicodeDecodeError

text \<open>
  A float64 is its 64-bit IEEE-754 pattern: the parser only moves samples, takes real
  parts and pads with NaN, it never computes with them. A complex128 is the pair of its
  real and imaginary patterns. The arrays of one block are one-dimensional (\<open>vec\<close>),
  of dtype float64 or complex128.
\<close>

type_synonym f64 = "64 word"
type_synonym c128 = "f64 \<times> f64"

datatype vec = FVec "f64 list" | CVec "c128 list"

datatype ndarray = NDArray (shape: "nat list") (flat: vec)

definition nan_f64 :: f64 where
  \<comment> \<open>\<^verbatim>\<open>np.nan\<close>, the quiet NaN of Python's \<^verbatim>\<open>float('nan')\<close>\<close>
  "nan_f64 = 0x7FF8000000000000"

fun vlen :: "vec \<Rightarrow> nat" where
  "vlen (FVec xs) = length xs"
| "vlen (CVec xs) = length xs"

fun is_complex :: "vec \<Rightarrow> bool" where
  "is_complex (FVec xs) = False"
| "is_complex (CVec xs) = True"

fun as_complex :: "vec \<Rightarrow> c128 list" where
  \<comment> \<open>the promotion of a float64 array to complex128: imaginary part +0.0\<close>
  "as_complex (FVec xs) = map (\<lambda>x. (x, 0)) xs"
| "as_complex (CVec xs) = xs"

fun as_float :: "vec \<Rightarrow> f64 list" where
  \<comment> \<open>\<^verbatim>\<open>np.real\<close> on the elements\<close>
  "as_float (FVec xs) = xs"
| "as_float (CVec xs) = map fst xs"

definition np_real :: "vec \<Rightarrow> vec" where
  "np_real v = FVec (as_float v)"

fun np_pad :: "vec \<Rightarrow> nat \<Rightarrow> vec" where
  \<comment> \<open>\<^verbatim>\<open>np.pad(yvec, (0, k), constant_values=np.nan)\<close>: NaN cast to the array's dtype\<close>
  "np_pad (FVec xs) k = FVec (xs @ replicate k nan_f64)"
| "np_pad (CVec xs) k = CVec (xs @ replicate k (nan_f64, 0))"

definition np_concat :: "vec list \<Rightarrow> vec" where
  \<comment> \<open>the elements of the arrays in order, in their common dtype\<close>
  "np_concat vs =
     (if \<exists>v \<in> set vs. is_complex v then CVec (concat (map as_complex vs))
      else FVec (concat (map as_float vs)))"

definition np_stack :: "vec list \<Rightarrow> py_error + ndarray" where
  \<comment> \<open>\<^verbatim>\<open>np.stack\<close> of one-dimensional arrays: they must have one length\<close>
  "np_stack vs =
     (case vs of
        [] \<Rightarrow> Inl (ValueError ''need at least one array to stack'')
      | v # _ \<Rightarrow>
          if \<forall>u \<in> set vs. vlen u = vlen v
          then Inr (NDArray [length vs, vlen v] (np_concat vs))
          else Inl (ValueError ''all input arrays must have the same shape''))"

definition np_reshape :: "ndarray \<Rightarrow> nat list \<Rightarrow> py_error + ndarray" where
  "np_reshape a new_shape =
     (if prod_list new_shape = vlen (flat a) then Inr (NDArray new_shape (flat a))
      else Inl (ValueError ''cannot reshape array''))"

definition np_linspace_int :: "int \<Rightarrow> int \<Rightarrow> nat \<Rightarrow> int list" where
  \<comment> \<open>\<^verbatim>\<open>np.linspace(start, stop, num, dtype=int)\<close>: \<open>num\<close> evenly spaced values with
      both ends, rounded down to integers as numpy does for an integer dtype\<close>
  "np_linspace_int start stop num =
     map (\<lambda>i. start + (int i * (stop - start)) div (int num - 1)) [0..<num]"

subsection \<open>The accumulated groups and the reconstructed analysis\<close>

type_synonym block = "(string \<times> vec) list"

record nb_dict =
  data :: "block list"
  swp_combos :: "int list list"
  inner_sweep :: string

text \<open>
  The values of the \<^verbatim>\<open>data\<close> mapping of an \<^verbatim>\<open>AnalysisData\<close>: under a sweep variable
  either the per-axis vector returned by the grid detector (\<open>SwpVals\<close>) or the whole
  \<^verbatim>\<open>swp_combo_list\<close> (\<open>SwpList\<close>), under a signal name its array.
\<close>

datatype dvalue = SwpVals "int list" | SwpList "int list list" | Signal ndarray

record analysis_data =
  sweep_params :: "string list"
  ad_data :: "(string \<times> dvalue) list"
  is_md :: bool

function str_of_nat :: "nat \<Rightarrow> string" where
  \<comment> \<open>the decimal digits of \<open>n\<close>, as in an f-string\<close>
  "str_of_nat n =
     (if n < 10 then [''0123456789'' ! n]
      else str_of_nat (n div 10) @ [''0123456789'' ! (n mod 10)])"
  by pat_completeness auto
termination
  by (relation "measure id") auto

declare str_of_nat.simps [simp del]

definition str_replace :: "string \<Rightarrow> string" where
  \<comment> \<open>\<^verbatim>\<open>sig_name.replace('/', '.')\<close>\<close>
  "str_replace s = map (\<lambda>c. if c = CHR ''/'' then CHR ''.'' else c) s"

subsection \<open>convert_to_analysis_data\<close>

text \<open>
  Lines 225 to 251: the names of the sweep variables, the sweep length and the coordinate
  vectors, by the three rules in the order of the source. \<^verbatim>\<open>np.array(swp_combos)\<close>
  raises on tuples of unequal length, and is only evaluated when there is a column to take.
\<close>

definition combo_columns :: "int list list \<Rightarrow> nat \<Rightarrow> py_error + int list list" where
  "combo_columns combos num_swp =
     (if num_swp = 0 then Inr []
      else if \<forall>c \<in> set combos. length c = num_swp
      then Inr (map (\<lambda>i. map (\<lambda>c. c ! i) combos) [0..<num_swp])
      else Inl (ValueError ''inhomogeneous shape''))"

definition sweep_setup ::
  "bool \<Rightarrow> string \<Rightarrow> nb_dict \<Rightarrow> py_error + (string list \<times> nat \<times> int list list)" where
  "sweep_setup monte_carlo ana_type nb =
     (case (case swp_combos nb of
              c0 # _ \<Rightarrow>
                (case combo_columns (swp_combos nb) (length c0) of
                   Inl e \<Rightarrow> Inl e
                 | Inr cols \<Rightarrow>
                     Inr (map (\<lambda>idx. ''sweep'' @ str_of_nat idx) [0..<length c0],
                          length (swp_combos nb), cols))
            | [] \<Rightarrow> Inr ([], 0, [])) of
        Inl e \<Rightarrow> Inl e
      | Inr s1 \<Rightarrow>
          let s2 = (if monte_carlo
                    then ([''monte_carlo''], length (data nb),
                          [np_linspace_int 0 (int (length (data nb)) - 1) (length (data nb))])
                    else s1);
              s3 = (if ana_type = ''pac''
                    then ([''harmonic''], length (data nb),
                          [np_linspace_int (- int (length (data nb) div 2))
                             (int (length (data nb) div 2)) (length (data nb))])
                    else s2)
          in Inr s3)"

text \<open>
  Lines 253 to 260. The grid detector \<^verbatim>\<open>_check_is_md\<close> lives in bag/simulation/data.py,
  which is not among the sources: it is the parameter \<open>chk\<close>, called as the source calls it.
\<close>

type_synonym 'r detector =
  "nat \<Rightarrow> int list list \<Rightarrow> 'r \<Rightarrow> 'r \<Rightarrow> nat option \<Rightarrow> nat list option \<times> int list list"

fun md_combo ::
  "string list \<Rightarrow> nat \<Rightarrow> int list list \<Rightarrow> (string \<times> dvalue) list \<Rightarrow>
   py_error + (string \<times> dvalue) list" where
  \<comment> \<open>\<^verbatim>\<open>{var: swp_vals[i] for i, var in enumerate(swp_vars)}\<close>, from index \<open>i\<close> on\<close>
  "md_combo [] i swp_vals d = Inr d"
| "md_combo (var # vars) i swp_vals d =
     (if i < length swp_vals
      then md_combo vars (Suc i) swp_vals (AList.update var (SwpVals (swp_vals ! i)) d)
      else Inl IndexError)"

definition sweep_data ::
  "'r detector \<Rightarrow> 'r \<Rightarrow> 'r \<Rightarrow> string list \<Rightarrow> nat \<Rightarrow> int list list \<Rightarrow>
   py_error + (bool \<times> nat list \<times> (string \<times> dvalue) list)" where
  "sweep_data chk rtol atol swp_vars swp_len swp_combo_list =
     (case chk 1 swp_combo_list rtol atol None of
        (Some swp_shape, swp_vals) \<Rightarrow>
          (case md_combo swp_vars 0 swp_vals [] of
             Inl e \<Rightarrow> Inl e
           | Inr swp_combo \<Rightarrow> Inr (True, swp_shape, swp_combo))
      | (None, swp_vals) \<Rightarrow>
          Inr (False, [swp_len],
               foldl (\<lambda>d var. AList.update var (SwpList swp_combo_list) d) [] swp_vars))"

text \<open>Lines 264 to 267: one signal of run 0 when there is no outer sweep.\<close>

definition single_signal :: "nat list \<Rightarrow> string \<Rightarrow> string \<times> vec \<Rightarrow> py_error + (string \<times> dvalue)" where
  "single_signal swp_shape inner (sig :: string \<times> vec) =
     (let sig_y = snd sig;
          data_shape = swp_shape @ [vlen sig_y];
          new_sig = str_replace (fst sig)
      in if new_sig = inner then Inr (new_sig, Signal (NDArray [vlen sig_y] sig_y))
         else (case np_reshape (NDArray [vlen sig_y] sig_y) data_shape of
                 Inl e \<Rightarrow> Inl e
               | Inr a \<Rightarrow> Inr (new_sig, Signal a)))"

text \<open>Line 271: the vector of one signal in each of the first \<open>swp_len\<close> runs.\<close>

fun get_yvecs :: "block list \<Rightarrow> string \<Rightarrow> nat list \<Rightarrow> py_error + vec list" where
  "get_yvecs runs sig_name [] = Inr []"
| "get_yvecs runs sig_name (i # is) =
     (if i < length runs
      then (case map_of (runs ! i) sig_name of
              None \<Rightarrow> Inl (KeyError sig_name)
            | Some y \<Rightarrow>
                (case get_yvecs runs sig_name is of
                   Inl e \<Rightarrow> Inl e
                 | Inr ys \<Rightarrow> Inr (y # ys)))
      else Inl IndexError)"

text \<open>Lines 271 to 287: one signal stacked over the runs of an outer sweep.\<close>

definition stack_signal ::
  "nat list \<Rightarrow> nat \<Rightarrow> string \<Rightarrow> block list \<Rightarrow> string \<Rightarrow> py_error + (string \<times> dvalue)" where
  "stack_signal swp_shape swp_len inner runs sig_name =
     (case get_yvecs runs sig_name [0..<swp_len] of
        Inl e \<Rightarrow> Inl e
      | Inr yvecs \<Rightarrow>
          let sub_dims = map vlen yvecs;
              max_dim = Max (set sub_dims);
              is_same_len = (\<forall>i \<in> set [0..<swp_len]. sub_dims ! i = sub_dims ! 0);
              data_shape = swp_shape @ [max_dim];
              new_sig = str_replace sig_name
          in if \<not> is_same_len
             then (case np_stack (map (\<lambda>(yvec, dim). np_pad yvec (max_dim - dim))
                                      (zip yvecs sub_dims)) of
                     Inl e \<Rightarrow> Inl e
                   | Inr sig_y \<Rightarrow>
                       (case np_reshape sig_y data_shape of
                          Inl e \<Rightarrow> Inl e
                        | Inr a \<Rightarrow> Inr (new_sig, Signal a)))
             else if new_sig = inner
             then Inr (new_sig, Signal (NDArray [vlen (yvecs ! 0)] (yvecs ! 0)))
             else (case np_stack yvecs of
                     Inl e \<Rightarrow> Inl e
                   | Inr sig_y \<Rightarrow>
                       (case np_reshape sig_y data_shape of
                          Inl e \<Rightarrow> Inl e
                        | Inr a \<Rightarrow> Inr (new_sig, Signal a))))"

text \<open>The loop over the signals: each result is stored under its new name.\<close>

fun store_signals ::
  "('a \<Rightarrow> py_error + (string \<times> dvalue)) \<Rightarrow> 'a list \<Rightarrow> (string \<times> dvalue) list \<Rightarrow>
   py_error + (string \<times> dvalue) list" where
  "store_signals f [] d = Inr d"
| "store_signals f (s # ss) d =
     (case f s of
        Inl e \<Rightarrow> Inl e
      | Inr (k, v) \<Rightarrow> store_signals f ss (AList.update k v d))"

definition convert_to_analysis_data ::
  "'r detector \<Rightarrow> bool \<Rightarrow> nb_dict \<Rightarrow> 'r \<Rightarrow> 'r \<Rightarrow> string \<Rightarrow> py_error + analysis_data" where
  "convert_to_analysis_data chk monte_carlo nb rtol atol ana_type =
     (case sweep_setup monte_carlo ana_type nb of
        Inl e \<Rightarrow> Inl e
      | Inr (swp_vars, swp_len, swp_combo_list) \<Rightarrow>
          (case sweep_data chk rtol atol swp_vars swp_len swp_combo_list of
             Inl e \<Rightarrow> Inl e
           | Inr (md, swp_shape, swp_combo) \<Rightarrow>
               (case (case data nb of
                        [] \<Rightarrow> Inl IndexError
                      | run0 # _ \<Rightarrow>
                          if swp_len = 0
                          then store_signals (single_signal swp_shape (inner_sweep nb))
                                 run0 swp_combo
                          else store_signals
                                 (stack_signal swp_shape swp_len (inner_sweep nb) (data nb))
                                 (map fst run0) swp_combo) of
                  Inl e \<Rightarrow> Inl e
                | Inr d \<Rightarrow>
                    Inr \<lparr>sweep_params =
                           ''corner'' # swp_vars @
                             (if inner_sweep nb \<noteq> [] then [inner_sweep nb] else []),
                         ad_data = d, is_md = md\<rparr>)))"

subsection \<open>The grid detector and array indexing\<close>

text \<open>
  Modelled from the spec: the grid detector \<^verbatim>\<open>_check_is_md\<close> of bag/simulation/data.py,
  which is not among the sources. The coordinate vectors give one point per run; they form
  a regular grid when the points are pairwise different and as many as the product of the
  numbers of different values on each axis, that is when they are a complete Cartesian
  product. The answer is then the size of each axis and its sorted values, without
  repetition; otherwise, and when there is no coordinate vector, (None, None). The
  coordinates of this program are integers, compared exactly; the first and the last
  argument are not used.
\<close>

definition check_is_md :: "'r detector" where
  "check_is_md num_env swp_vals rtol atol lst =
     (case swp_vals of
        [] \<Rightarrow> (None, [])
      | v0 # _ \<Rightarrow>
          let axes = map (\<lambda>v. sort (remdups v)) swp_vals;
              points = map (\<lambda>k. map (\<lambda>v. v ! k) swp_vals) [0..<length v0]
          in if (\<forall>v \<in> set swp_vals. length v = length v0) \<and> distinct points \<and>
                length points = prod_list (map length axes)
             then (Some (map length axes), axes)
             else (None, []))"

text \<open>
  Reading an array: \<open>nd_index a idx\<close> is \<^verbatim>\<open>a[idx]\<close> for an index \<open>idx\<close> over all
  axes but the last, the vector along the last axis at the row-major position of \<open>idx\<close>.
\<close>

fun vslice :: "vec \<Rightarrow> nat \<Rightarrow> nat \<Rightarrow> vec" where
  "vslice (FVec xs) off n = FVec (take n (drop off xs))"
| "vslice (CVec xs) off n = CVec (take n (drop off xs))"

definition ravel_index :: "nat list \<Rightarrow> nat list \<Rightarrow> nat" where
  "ravel_index shp idx = foldl (\<lambda>acc (n, i). acc * n + i) 0 (zip shp idx)"

definition nd_index :: "ndarray \<Rightarrow> nat list \<Rightarrow> vec" where
  "nd_index a idx =
     vslice (flat a) (ravel_index (butlast (shape a)) idx * last (shape a)) (last (shape a))"

definition np_cast :: "bool \<Rightarrow> vec \<Rightarrow> vec" where
  \<comment> \<open>an array in the dtype of a stack: complex128 when some stacked array is complex\<close>
  "np_cast c v = (if c then CVec (as_complex v) else FVec (as_float v))"

subsection \<open>The plot name\<close>

text \<open>
  The regular expressions of \<^verbatim>\<open>get_info_from_plotname\<close>, each as the search it performs on
  ASCII text (the plot name is decoded as ASCII). A search tries the start positions from
  the left; at one position the greedy repetitions of these patterns can only match the
  longest run, since the character that must follow is outside the repeated class.
\<close>

definition is_alpha :: "char \<Rightarrow> bool" where
  "is_alpha c \<longleftrightarrow> c \<in> set ''abcdefghijklmnopqrstuvwxyzABCDEFGHIJKLMNOPQRSTUVWXYZ''"

definition is_digit :: "char \<Rightarrow> bool" where
  "is_digit c \<longleftrightarrow> c \<in> set ''0123456789''"

definition is_alnum :: "char \<Rightarrow> bool" where
  "is_alnum c \<longleftrightarrow> is_alpha c \<or> is_digit c"

definition is_word :: "char \<Rightarrow> bool" where
  \<comment> \<open>\<^verbatim>\<open>\w\<close> on ASCII text\<close>
  "is_word c \<longleftrightarrow> is_alnum c \<or> c = CHR ''_''"

fun search_quoted :: "string \<Rightarrow> string option" where
  \<comment> \<open>\<^verbatim>\<open>re.search('`.*\'', plotname).group(0)\<close>: from the first back-tick that has a quote
      after it on its line to the last quote of that line\<close>
  "search_quoted [] = None"
| "search_quoted (c # cs) =
     (if c = CHR 0x60 \<and> CHR 0x27 \<in> set (takeWhile (\<lambda>x. x \<noteq> CHR 0x0A) cs)
      then Some (c # rev (dropWhile (\<lambda>x. x \<noteq> CHR 0x27) (rev (takeWhile (\<lambda>x. x \<noteq> CHR 0x0A) cs))))
      else search_quoted cs)"

definition match_type_env :: "string \<Rightarrow> (string \<times> string) option" where
  \<comment> \<open>\<^verbatim>\<open>([a-zA-Z]+)__([a-zA-Z0-9]+_[a-zA-Z0-9]+)\<close> at the start of the text: groups 1 and 2\<close>
  "match_type_env s =
     (let ty = takeWhile is_alpha s in
      if ty = [] then None
      else (case dropWhile is_alpha s of
              u1 # u2 # r \<Rightarrow>
                if u1 = CHR ''_'' \<and> u2 = CHR ''_'' \<and> takeWhile is_alnum r \<noteq> []
                then (case dropWhile is_alnum r of
                        u3 # r' \<Rightarrow>
                          if u3 = CHR ''_'' \<and> takeWhile is_alnum r' \<noteq> []
                          then Some (ty, takeWhile is_alnum r @ ''_'' @ takeWhile is_alnum r')
                          else None
                      | [] \<Rightarrow> None)
                else None
            | _ \<Rightarrow> None))"

fun search_type_env :: "string \<Rightarrow> (string \<times> string) option" where
  "search_type_env [] = match_type_env []"
| "search_type_env (c # cs) =
     (case match_type_env (c # cs) of Some g \<Rightarrow> Some g | None \<Rightarrow> search_type_env cs)"

definition match_inner :: "string \<Rightarrow> string option" where
  \<comment> \<open>\<^verbatim>\<open>: (\w+) =\<close> at the start of the text: group 1\<close>
  "match_inner s =
     (case s of
        c1 # c2 # r \<Rightarrow>
          if c1 = CHR '':'' \<and> c2 = CHR '' '' \<and> takeWhile is_word r \<noteq> []
          then (case dropWhile is_word r of
                  c3 # c4 # _ \<Rightarrow>
                    if c3 = CHR '' '' \<and> c4 = CHR ''='' then Some (takeWhile is_word r) else None
                | _ \<Rightarrow> None)
          else None
      | _ \<Rightarrow> None)"

fun search_inner :: "string \<Rightarrow> string option" where
  "search_inner [] = None"
| "search_inner (c # cs) =
     (case match_inner (c # cs) of Some w \<Rightarrow> Some w | None \<Rightarrow> search_inner cs)"

fun match_pat :: "(char \<Rightarrow> bool) list \<Rightarrow> string \<Rightarrow> bool" where
  \<comment> \<open>a pattern of fixed length, one class per character, at the start of the text\<close>
  "match_pat [] s = True"
| "match_pat (p # ps) [] = False"
| "match_pat (p # ps) (c # cs) = (p c \<and> match_pat ps cs)"

function findall_pat :: "(char \<Rightarrow> bool) list \<Rightarrow> string \<Rightarrow> string list" where
  \<comment> \<open>\<^verbatim>\<open>re.findall\<close> of such a pattern: the matches from the left, not overlapping\<close>
  "findall_pat pat [] = []"
| "findall_pat pat (c # cs) =
     (if match_pat pat (c # cs)
      then take (length pat) (c # cs) # findall_pat pat (drop (length pat - 1) cs)
      else findall_pat pat cs)"
  by pat_completeness auto
termination
  by (relation "measure (\<lambda>(pat, s). length s)") auto

definition swp_pat :: "(char \<Rightarrow> bool) list" where
  \<comment> \<open>\<^verbatim>\<open>swp[0-9]{2}\<close>\<close>
  "swp_pat = [(=) CHR ''s'', (=) CHR ''w'', (=) CHR ''p'', is_digit, is_digit]"

definition swp1_pat :: "(char \<Rightarrow> bool) list" where
  \<comment> \<open>\<^verbatim>\<open>swp[0-9]{2}-[0-9]{3}\<close>\<close>
  "swp1_pat = swp_pat @ [(=) CHR ''-'', is_digit, is_digit, is_digit]"

definition digit_val :: "char \<Rightarrow> int" where
  "digit_val c = int (length (takeWhile (\<lambda>d. d \<noteq> c) ''0123456789''))"

definition int_of_digits :: "string \<Rightarrow> int" where
  "int_of_digits s = foldl (\<lambda>a c. 10 * a + digit_val c) 0 s"

record plot_info =
  ana_name :: string
  sim_env :: string
  ana_type :: string
  swp_info :: "string list"
  swp_combo :: "int list"
  info_inner_sweep :: string

definition get_info_from_plotname :: "string \<Rightarrow> py_error + plot_info" where
  "get_info_from_plotname plotname =
     (case search_quoted plotname of
        None \<Rightarrow> Inl AttributeError
      | Some g0 \<Rightarrow>
          let name = butlast (tl g0) in
          (case search_type_env name of
             None \<Rightarrow> Inl AttributeError
           | Some (ty, env) \<Rightarrow>
               let inner = (case search_inner plotname of Some w \<Rightarrow> w | None \<Rightarrow> []) in
               (case (if ty = ''pss''
                      then if inner = ''freq'' then Inr ''pss_fd''
                           else if inner = ''time'' then Inr ''pss_td''
                           else Inl NotImplementedError
                      else Inr ty) of
                  Inl e \<Rightarrow> Inl e
                | Inr ty' \<Rightarrow>
                    Inr \<lparr>ana_name = name, sim_env = env, ana_type = ty',
                         swp_info = findall_pat swp_pat name,
                         swp_combo = map (\<lambda>val. int_of_digits (drop (length val - 3) val))
                                       (findall_pat swp1_pat name),
                         info_inner_sweep = inner\<rparr>)))"

subsection \<open>populate_dict\<close>

type_synonym ana_dict = "(string \<times> (string \<times> nb_dict) list) list"

definition populate_dict :: "bool \<Rightarrow> ana_dict \<Rightarrow> string \<Rightarrow> block \<Rightarrow> py_error + ana_dict" where
  "populate_dict monte_carlo d plotname blk =
     (case get_info_from_plotname plotname of
        Inl e \<Rightarrow> Inl e
      | Inr info \<Rightarrow>
          if monte_carlo \<and> take 5 (ana_name info) \<noteq> ''__mc_'' then Inr d
          else
            let envs = (case map_of d (ana_type info) of None \<Rightarrow> [] | Some es \<Rightarrow> es);
                grp = (case map_of envs (sim_env info) of
                         None \<Rightarrow> \<lparr>data = [], swp_combos = [],
                                  inner_sweep = info_inner_sweep info\<rparr>
                       | Some g \<Rightarrow> g);
                grp1 = grp\<lparr>data := data grp @ [blk]\<rparr>;
                grp2 = (if swp_combo info \<noteq> []
                        then grp1\<lparr>swp_combos := swp_combos grp1 @ [swp_combo info]\<rparr>
                        else grp1)
            in Inr (AList.update (ana_type info) (AList.update (sim_env info) grp2 envs) d))"

text \<open>
  The calls of \<^verbatim>\<open>populate_dict\<close> that the loop of \<^verbatim>\<open>parse_raw_file\<close> makes, on the plot
  names and blocks of a file in file order.
\<close>

fun populate_all :: "bool \<Rightarrow> ana_dict \<Rightarrow> (string \<times> block) list \<Rightarrow> py_error + ana_dict" where
  "populate_all monte_carlo d [] = Inr d"
| "populate_all monte_carlo d ((plotname, blk) # rest) =
     (case populate_dict monte_carlo d plotname blk of
        Inl e \<Rightarrow> Inl e
      | Inr d' \<Rightarrow> populate_all monte_carlo d' rest)"

subsection \<open>convert_to_sim_data\<close>

text \<open>
  \<^verbatim>\<open>combine_ana_sim_envs\<close> lives in bag/simulation/srr.py, which is not among the sources: it
  is the parameter \<open>combine\<close>. \<^verbatim>\<open>SimData\<close> is the record of the three arguments of its
  constructor; of the enumeration \<^verbatim>\<open>DesignOutput\<close> of pybag only the member used here is
  modelled.
\<close>

datatype design_output = SPECTRE

record 'c sim_data =
  sd_sim_envs :: "string list"
  sd_ana_dict :: "(string \<times> 'c) list"
  sd_netlist_type :: design_output

type_synonym 'c combiner = "(string \<times> analysis_data) list \<Rightarrow> string list \<Rightarrow> py_error + 'c"

fun convert_envs ::
  "'r detector \<Rightarrow> bool \<Rightarrow> 'r \<Rightarrow> 'r \<Rightarrow> string \<Rightarrow> (string \<times> nb_dict) list \<Rightarrow>
   (string \<times> analysis_data) list \<Rightarrow> py_error + (string \<times> analysis_data) list" where
  "convert_envs chk mc rtol atol ty [] sub = Inr sub"
| "convert_envs chk mc rtol atol ty ((env, nb) # rest) sub =
     (case convert_to_analysis_data chk mc nb rtol atol ty of
        Inl e \<Rightarrow> Inl e
      | Inr ad \<Rightarrow> convert_envs chk mc rtol atol ty rest (AList.update env ad sub))"

fun convert_types ::
  "'r detector \<Rightarrow> 'c combiner \<Rightarrow> bool \<Rightarrow> 'r \<Rightarrow> 'r \<Rightarrow> ana_dict \<Rightarrow>
   (string \<times> 'c) list \<times> string list \<Rightarrow> py_error + ((string \<times> 'c) list \<times> string list)" where
  "convert_types chk combine mc rtol atol [] st = Inr st"
| "convert_types chk combine mc rtol atol ((ty, sim_env_dict) # rest) st =
     (let sim_envs = sort (map fst sim_env_dict) in
      case convert_envs chk mc rtol atol ty sim_env_dict [] of
        Inl e \<Rightarrow> Inl e
      | Inr sub \<Rightarrow>
          (case combine sub sim_envs of
             Inl e \<Rightarrow> Inl e
           | Inr comb \<Rightarrow>
               convert_types chk combine mc rtol atol rest
                 (AList.update ty comb (fst st), sim_envs)))"

definition convert_to_sim_data ::
  "'r detector \<Rightarrow> 'c combiner \<Rightarrow> bool \<Rightarrow> ana_dict \<Rightarrow> 'r \<Rightarrow> 'r \<Rightarrow> py_error + 'c sim_data" where
  "convert_to_sim_data chk combine mc nb_data rtol atol =
     (case convert_types chk combine mc rtol atol nb_data ([], []) of
        Inl e \<Rightarrow> Inl e
      | Inr (ad, sim_envs) \<Rightarrow>
          Inr \<lparr>sd_sim_envs = sim_envs, sd_ana_dict = ad, sd_netlist_type = SPECTRE\<rparr>)"

text \<open>
  Modelled from the spec: \<^verbatim>\<open>combine_ana_sim_envs\<close> merges the per-environment analyses of
  one analysis type into one structure indexed by environment, here the analyses in the
  order of the environment names it is given.
\<close>

fun combine_ana_sim_envs :: "((string \<times> analysis_data) list) combiner" where
  "combine_ana_sim_envs sub [] = Inr []"
| "combine_ana_sim_envs sub (env # envs) =
     (case map_of sub env of
        None \<Rightarrow> Inl (KeyError env)
      | Some ad \<Rightarrow>
          (case combine_ana_sim_envs sub envs of
             Inl e \<Rightarrow> Inl e
           | Inr r \<Rightarrow> Inr ((env, ad) # r)))"

subsection \<open>parse_analysis\<close>

text \<open>
  The binary stream \<^verbatim>\<open>f\<close> is the list of the bytes not yet read; a byte is a \<open>char\<close>.
  Reading returns what was read and the rest of the stream.
\<close>

type_synonym stream = "char list"

definition readline :: "stream \<Rightarrow> char list \<times> stream" where
  \<comment> \<open>up to and with the next newline, or to the end of the stream\<close>
  "readline f =
     (case dropWhile (\<lambda>b. b \<noteq> CHR 0x0A) f of
        [] \<Rightarrow> (f, [])
      | nl # rest \<Rightarrow> (takeWhile (\<lambda>b. b \<noteq> CHR 0x0A) f @ [nl], rest))"

definition decode_ascii :: "char list \<Rightarrow> py_error + string" where
  \<comment> \<open>\<^verbatim>\<open>.decode('ascii')\<close>: no byte above 127\<close>
  "decode_ascii bs = (if \<exists>b \<in> set bs. digit7 b then Inl UnicodeDecodeError else Inr bs)"

definition is_space :: "char \<Rightarrow> bool" where
  \<comment> \<open>the ASCII characters that \<^verbatim>\<open>str.split()\<close> takes as white space\<close>
  "is_space c \<longleftrightarrow>
     c \<in> set [CHR 0x20, CHR 0x09, CHR 0x0A, CHR 0x0B, CHR 0x0C, CHR 0x0D,
              CHR 0x1C, CHR 0x1D, CHR 0x1E, CHR 0x1F]"

function py_split :: "string \<Rightarrow> string list" where
  \<comment> \<open>\<^verbatim>\<open>str.split()\<close>: the maximal runs of characters that are not white space\<close>
  "py_split s =
     (case dropWhile is_space s of
        [] \<Rightarrow> []
      | c # cs \<Rightarrow>
          (c # takeWhile (\<lambda>x. \<not> is_space x) cs) # py_split (dropWhile (\<lambda>x. \<not> is_space x) cs))"
  by pat_completeness auto
termination
proof (relation "measure length")
  show "wf (measure length)" by simp
next
  fix s :: string and c cs
  assume a: "dropWhile is_space s = c # cs"
  have "length (dropWhile (\<lambda>x. \<not> is_space x) cs) \<le> length cs"
    by (rule length_dropWhile_le)
  also have "length cs < length (dropWhile is_space s)" using a by simp
  also have "\<dots> \<le> length s" by (rule length_dropWhile_le)
  finally show "(dropWhile (\<lambda>x. \<not> is_space x) cs, s) \<in> measure length" by simp
qed

declare py_split.simps [simp del]

fun digit_groups :: "string \<Rightarrow> bool" where
  \<comment> \<open>digits, with single underscores between digits allowed\<close>
  "digit_groups [] = False"
| "digit_groups [c] = is_digit c"
| "digit_groups (c # d # r) =
     (is_digit c \<and> (if d = CHR ''_'' then digit_groups r else digit_groups (d # r)))"

definition py_int :: "string \<Rightarrow> py_error + int" where
  \<comment> \<open>\<^verbatim>\<open>int(s)\<close> on a token without white space: an optional sign and decimal digits\<close>
  "py_int s =
     (let neg = (case s of c # _ \<Rightarrow> c = CHR ''-'' | [] \<Rightarrow> False);
          body = (case s of c # r \<Rightarrow> if c = CHR ''-'' \<or> c = CHR ''+'' then r else s | [] \<Rightarrow> s)
      in if digit_groups body
         then Inr ((if neg then - 1 else 1) * int_of_digits (filter is_digit body))
         else Inl (ValueError ''invalid literal for int() with base 10''))"

datatype value_kind = Real | Complex

definition flag_type :: "string \<Rightarrow> py_error + value_kind" where
  \<comment> \<open>lines 77 to 82\<close>
  "flag_type flag =
     (if flag = ''real'' then Inr Real
      else if flag = ''complex'' then Inr Complex
      else Inl (ValueError (''Flag type '' @ flag @ '' is not recognized.'')))"

definition read_last_int :: "stream \<Rightarrow> py_error + (int \<times> stream)" where
  \<comment> \<open>\<^verbatim>\<open>int(f.readline().decode('ascii').split()[-1])\<close>\<close>
  "read_last_int f =
     (case decode_ascii (fst (readline f)) of
        Inl e \<Rightarrow> Inl e
      | Inr text \<Rightarrow>
          (case py_split text of
             [] \<Rightarrow> Inl IndexError
           | t # ts \<Rightarrow>
               (case py_int (last (t # ts)) of
                  Inl e \<Rightarrow> Inl e
                | Inr n \<Rightarrow> Inr (n, snd (readline f)))))"

fun read_var_names :: "nat \<Rightarrow> nat \<Rightarrow> stream \<Rightarrow> py_error + (string list \<times> stream)" where
  \<comment> \<open>lines 89 to 95, for the \<open>k\<close> indices from \<open>idx\<close> on\<close>
  "read_var_names 0 idx f = Inr ([], f)"
| "read_var_names (Suc k) idx f =
     (case decode_ascii (fst (readline f)) of
        Inl e \<Rightarrow> Inl e
      | Inr text \<Rightarrow>
          let line = py_split text; pos = (if idx = 0 then 2 else 1) in
          if pos < length line
          then (case read_var_names k (Suc idx) (snd (readline f)) of
                  Inl e \<Rightarrow> Inl e
                | Inr (names, f') \<Rightarrow> Inr (line ! pos # names, f'))
          else Inl IndexError)"

definition be_f64 :: "char list \<Rightarrow> f64" where
  \<comment> \<open>eight bytes, the most significant first\<close>
  "be_f64 bs = word_rcat (map (of_char :: char \<Rightarrow> 8 word) bs)"

definition np_fromfile :: "value_kind \<Rightarrow> stream \<Rightarrow> int \<Rightarrow> vec \<times> stream" where
  \<comment> \<open>\<^verbatim>\<open>np.fromfile(f, dtype, count)\<close>: at most \<open>count\<close> whole items, all of them when \<open>count\<close>
      is negative; a short stream gives a shorter array, not an error\<close>
  "np_fromfile kind f count =
     (let size = (case kind of Real \<Rightarrow> 8 | Complex \<Rightarrow> 16);
          avail = length f div size;
          k = (if count < 0 then avail else min (nat count) avail);
          rest = (if count < 0 \<or> nat count \<le> avail then drop (k * size) f else [])
      in (case kind of
            Real \<Rightarrow> FVec (map (\<lambda>i. be_f64 (take 8 (drop (8 * i) f))) [0..<k])
          | Complex \<Rightarrow>
              CVec (map (\<lambda>i. (be_f64 (take 8 (drop (16 * i) f)),
                              be_f64 (take 8 (drop (16 * i + 8) f)))) [0..<k]),
          rest))"

definition stride :: "nat \<Rightarrow> nat \<Rightarrow> 'a list \<Rightarrow> 'a list" where
  \<comment> \<open>the slice \<^verbatim>\<open>xs[idx::n]\<close> for \<open>n > 0\<close>\<close>
  "stride idx n xs = map (\<lambda>j. xs ! (idx + j * n)) [0..<(length xs - idx + n - 1) div n]"

fun vstride :: "nat \<Rightarrow> nat \<Rightarrow> vec \<Rightarrow> vec" where
  "vstride idx n (FVec xs) = FVec (stride idx n xs)"
| "vstride idx n (CVec xs) = CVec (stride idx n xs)"

fun columns :: "vec \<Rightarrow> nat \<Rightarrow> nat \<Rightarrow> string list \<Rightarrow> block \<Rightarrow> block" where
  \<comment> \<open>lines 101 to 105, for the names from index \<open>idx\<close> on\<close>
  "columns bin_data num_vars idx [] d = d"
| "columns bin_data num_vars idx (var_name # names) d =
     columns bin_data num_vars (Suc idx) names
       (AList.update var_name
          (if var_name = ''freq'' then np_real (vstride idx num_vars bin_data)
           else vstride idx num_vars bin_data) d)"

definition parse_analysis :: "stream \<Rightarrow> py_error + (block \<times> stream)" where
  "parse_analysis f =
     (case decode_ascii (fst (readline f)) of
        Inl e \<Rightarrow> Inl e
      | Inr text \<Rightarrow>
          let flags = py_split text in
          if length flags < 2 then Inl IndexError
          else (case flag_type (flags ! 1) of
                  Inl e \<Rightarrow> Inl e
                | Inr nptype \<Rightarrow>
                    (case read_last_int (snd (readline f)) of
                       Inl e \<Rightarrow> Inl e
                     | Inr (num_vars, f2) \<Rightarrow>
                         (case read_last_int f2 of
                            Inl e \<Rightarrow> Inl e
                          | Inr (num_points, f3) \<Rightarrow>
                              (case read_var_names (nat num_vars) 0 f3 of
                                 Inl e \<Rightarrow> Inl e
                               | Inr (var_names, f4) \<Rightarrow>
                                   let (bin_data, f6) =
                                         np_fromfile nptype (snd (readline f4))
                                           (num_vars * num_points)
                                   in Inr (columns bin_data (nat num_vars) 0 var_names [],
                                           f6))))))"

subsection \<open>parse_raw_file\<close>

text \<open>Every read leaves a stream that is not longer, so the loop ends.\<close>

lemma readline_length: "length (snd (readline f)) \<le> length f"
proof (cases "dropWhile (\<lambda>b. b \<noteq> CHR 0x0A) f")
  case Nil
  then have "readline f = (f, [])" unfolding readline_def by (simp only: list.case)
  then show ?thesis by simp
next
  case (Cons nl rest)
  have "length (dropWhile (\<lambda>b. b \<noteq> CHR 0x0A) f) \<le> length f" by (rule length_dropWhile_le)
  with Cons show ?thesis by (simp add: readline_def)
qed

lemma readline_fst_empty: "fst (readline f) = [] \<longleftrightarrow> f = []"
proof (cases "dropWhile (\<lambda>b. b \<noteq> CHR 0x0A) f")
  case Nil
  then have "readline f = (f, [])" unfolding readline_def by (simp only: list.case)
  then show ?thesis by simp
next
  case (Cons nl rest)
  then have "f \<noteq> []" by auto
  with Cons show ?thesis by (simp add: readline_def)
qed

lemma readline_append: "fst (readline f) @ snd (readline f) = f"
proof (cases "dropWhile (\<lambda>b. b \<noteq> CHR 0x0A) f")
  case Nil
  then have "readline f = (f, [])" unfolding readline_def by (simp only: list.case)
  then show ?thesis by simp
next
  case (Cons nl rest)
  have "takeWhile (\<lambda>b. b \<noteq> CHR 0x0A) f @ dropWhile (\<lambda>b. b \<noteq> CHR 0x0A) f = f" by simp
  with Cons show ?thesis by (simp add: readline_def)
qed

lemma readline_length_less: "f \<noteq> [] \<Longrightarrow> length (snd (readline f)) < length f"
proof -
  assume "f \<noteq> []"
  then have "fst (readline f) \<noteq> []" by (simp add: readline_fst_empty)
  then have "0 < length (fst (readline f))" by (cases "fst (readline f)") auto
  moreover have "length (fst (readline f)) + length (snd (readline f)) = length f"
    using readline_append [of f] by (metis length_append)
  ultimately show ?thesis by linarith
qed

lemma read_last_int_length: "read_last_int f = Inr (n, f') \<Longrightarrow> length f' \<le> length f"
  using readline_length [of f]
  by (auto simp: read_last_int_def split: sum.splits list.splits)

lemma read_var_names_length:
  "read_var_names k idx f = Inr (names, f') \<Longrightarrow> length f' \<le> length f"
proof (induction k arbitrary: idx f names)
  case 0
  then show ?case by simp
next
  case (Suc k)
  from Suc.prems obtain ns where "read_var_names k (Suc idx) (snd (readline f)) = Inr (ns, f')"
    by (auto simp: Let_def split: sum.splits if_splits)
  from Suc.IH [OF this] readline_length [of f] show ?case by simp
qed

lemma np_fromfile_length: "length (snd (np_fromfile kind f count)) \<le> length f"
  by (simp add: np_fromfile_def Let_def)

lemma parse_analysis_Inr:
  assumes "parse_analysis f = Inr (blk, f')"
  obtains ln nptype num_vars f2 num_points f3 names f4 where
    "decode_ascii (fst (readline f)) = Inr ln"
    "1 < length (py_split ln)"
    "flag_type (py_split ln ! 1) = Inr nptype"
    "read_last_int (snd (readline f)) = Inr (num_vars, f2)"
    "read_last_int f2 = Inr (num_points, f3)"
    "read_var_names (nat num_vars) 0 f3 = Inr (names, f4)"
    "blk = columns (fst (np_fromfile nptype (snd (readline f4)) (num_vars * num_points)))
             (nat num_vars) 0 names []"
    "f' = snd (np_fromfile nptype (snd (readline f4)) (num_vars * num_points))"
proof -
  from assms obtain ln where a: "decode_ascii (fst (readline f)) = Inr ln"
    by (cases "decode_ascii (fst (readline f))") (auto simp: parse_analysis_def)
  from assms a have b: "1 < length (py_split ln)"
    by (auto simp: parse_analysis_def Let_def split: if_splits)
  from assms a b obtain nptype where c: "flag_type (py_split ln ! 1) = Inr nptype"
    by (cases "flag_type (py_split ln ! 1)") (auto simp: parse_analysis_def Let_def)
  from assms a b c obtain num_vars f2 where
    d: "read_last_int (snd (readline f)) = Inr (num_vars, f2)"
    by (cases "read_last_int (snd (readline f))") (auto simp: parse_analysis_def Let_def)
  from assms a b c d obtain num_points f3 where e: "read_last_int f2 = Inr (num_points, f3)"
    by (cases "read_last_int f2") (auto simp: parse_analysis_def Let_def)
  from assms a b c d e obtain names f4 where
    g: "read_var_names (nat num_vars) 0 f3 = Inr (names, f4)"
    by (cases "read_var_names (nat num_vars) 0 f3") (auto simp: parse_analysis_def Let_def)
  from assms a b c d e g have
    h: "blk = columns (fst (np_fromfile nptype (snd (readline f4)) (num_vars * num_points)))
             (nat num_vars) 0 names []"
    and i: "f' = snd (np_fromfile nptype (snd (readline f4)) (num_vars * num_points))"
    by (auto simp: parse_analysis_def Let_def split: prod.splits)
  from a b c d e g h i show ?thesis by (rule that)
qed

lemma parse_analysis_length:
  assumes "parse_analysis f = Inr (blk, f')"
  shows "length f' \<le> length f"
proof -
  obtain nptype num_vars num_points f2 f3 names f4 where
    a: "read_last_int (snd (readline f)) = Inr (num_vars, f2)"
    and b: "read_last_int f2 = Inr (num_points, f3)"
    and c: "read_var_names (nat num_vars) 0 f3 = Inr (names, f4)"
    and d: "f' = snd (np_fromfile nptype (snd (readline f4)) (num_vars * num_points))"
    by (rule parse_analysis_Inr [OF assms]) blast
  from d have "length f' \<le> length (snd (readline f4))" by (simp add: np_fromfile_length)
  also have "\<dots> \<le> length f4" by (rule readline_length)
  also have "\<dots> \<le> length f3" by (rule read_var_names_length [OF c])
  also have "\<dots> \<le> length f2" by (rule read_last_int_length [OF b])
  also have "\<dots> \<le> length (snd (readline f))" by (rule read_last_int_length [OF a])
  also have "\<dots> \<le> length f" by (rule readline_length)
  finally show ?thesis .
qed

text \<open>
  The loop of \<^verbatim>\<open>parse_raw_file\<close>, after the title and the date: a plot name, its block, and
  the accumulation, until the stream ends.
\<close>

function read_analyses :: "bool \<Rightarrow> stream \<Rightarrow> ana_dict \<Rightarrow> py_error + ana_dict" where
  "read_analyses mc f d =
     (case decode_ascii (fst (readline f)) of
        Inl e \<Rightarrow> Inl e
      | Inr plotname \<Rightarrow>
          if plotname = [] then Inr d
          else (case parse_analysis (snd (readline f)) of
                  Inl e \<Rightarrow> Inl e
                | Inr (blk, f') \<Rightarrow>
                    (case populate_dict mc d plotname blk of
                       Inl e \<Rightarrow> Inl e
                     | Inr d' \<Rightarrow> read_analyses mc f' d')))"
  by pat_completeness auto
termination
proof (relation "measure (\<lambda>(mc, f, d). length f)")
  show "wf (measure (\<lambda>(mc, f, d). length f))" by simp
next
  fix mc :: bool and f :: stream and d :: ana_dict and plotname x2 blk f' d'
  assume dec: "decode_ascii (fst (readline f)) = Inr plotname"
    and ne: "plotname \<noteq> []"
    and pa: "parse_analysis (snd (readline f)) = Inr x2"
    and x2: "(blk, f') = x2"
  from dec ne have "fst (readline f) \<noteq> []"
    by (auto simp: decode_ascii_def split: if_splits)
  then have "f \<noteq> []" by (simp add: readline_fst_empty)
  then have "length (snd (readline f)) < length f" by (rule readline_length_less)
  moreover from pa x2 have "length f' \<le> length (snd (readline f))"
    by (auto dest: parse_analysis_length)
  ultimately show "((mc, f', d'), (mc, f, d)) \<in> measure (\<lambda>(mc, f, d). length f)" by simp
qed

declare read_analyses.simps [simp del]

definition parse_raw_file :: "bool \<Rightarrow> stream \<Rightarrow> py_error + ana_dict" where
  "parse_raw_file mc f = read_analyses mc (snd (readline (snd (readline f)))) []"

subsection \<open>Example groups\<close>

text \<open>
  Two runs of an outer sweep whose vectors have three and two points, and four runs of one
  signal with the outer combinations left open.
\<close>

definition ex_ragged :: nb_dict where
  "ex_ragged =
     \<lparr>data = [[(''time'', FVec [1, 2, 3]), (''X1/out'', FVec [10, 11, 12])],
              [(''time'', FVec [1, 2]), (''X1/out'', FVec [20, 21])]],
      swp_combos = [[0], [1]], inner_sweep = ''time''\<rparr>"

definition ex_grid :: "int list list \<Rightarrow> nb_dict" where
  "ex_grid combos =
     \<lparr>data = [[(''time'', FVec [0, 5]), (''v'', FVec [1, 2])],
              [(''time'', FVec [0, 5]), (''v'', FVec [11, 12])],
              [(''time'', FVec [0, 5]), (''v'', FVec [21, 22])],
              [(''time'', FVec [0, 5]), (''v'', FVec [31, 32])]],
      swp_combos = combos, inner_sweep = ''time''\<rparr>"


definition ex_grid_out :: analysis_data where
  "ex_grid_out =
     \<lparr>sweep_params = [''corner'', ''sweep0'', ''sweep1'', ''time''],
      ad_data =
        [(''sweep0'', SwpVals [0, 1]), (''sweep1'', SwpVals [0, 1]),
         (''time'', Signal (NDArray [2] (FVec [0, 5]))),
         (''v'', Signal (NDArray [2, 2, 2] (FVec [1, 2, 11, 12, 21, 22, 31, 32])))],
      is_md = True\<rparr>"

definition ex_irregular_out :: analysis_data where
  "ex_irregular_out =
     \<lparr>sweep_params = [''corner'', ''sweep0'', ''sweep1'', ''time''],
      ad_data =
        [(''sweep0'', SwpList [[0, 0, 1], [0, 1, 0]]),
         (''sweep1'', SwpList [[0, 0, 1], [0, 1, 0]]),
         (''time'', Signal (NDArray [2] (FVec [0, 5]))),
         (''v'', Signal (NDArray [3, 2] (FVec [1, 2, 11, 12, 21, 22])))],
      is_md = False\<rparr>"

text \<open>Five pac runs in Monte-Carlo mode that also carry outer combinations.\<close>

definition ex_pac :: nb_dict where
  "ex_pac =
     \<lparr>data = [[(''freq'', FVec [7]), (''out'', CVec [(1, 2)])],
              [(''freq'', FVec [7]), (''out'', CVec [(1, 3)])],
              [(''freq'', FVec [7]), (''out'', CVec [(1, 4)])],
              [(''freq'', FVec [7]), (''out'', CVec [(1, 5)])],
              [(''freq'', FVec [7]), (''out'', CVec [(1, 6)])]],
      swp_combos = [[0], [1], [2], [3], [4]], inner_sweep = ''freq''\<rparr>"

text \<open>
  A Monte-Carlo file: five randomized runs and the nominal run, third in the file; and two
  analysis types that saw different environments.
\<close>

definition ex_mc_file :: "(string \<times> block) list" where
  "ex_mc_file =
     [(''Plotname: Transient Analysis `__mc_tran__tt_25-001': time = (0 1)\<newline>'',
       [(''time'', FVec [0, 5]), (''out'', FVec [1, 2])]),
      (''Plotname: Transient Analysis `__mc_tran__tt_25-002': time = (0 1)\<newline>'',
       [(''time'', FVec [0, 5]), (''out'', FVec [3, 4])]),
      (''Plotname: Transient Analysis `tran__tt_25': time = (0 1)\<newline>'',
       [(''time'', FVec [0, 5]), (''out'', FVec [9, 9])]),
      (''Plotname: Transient Analysis `__mc_tran__tt_25-003': time = (0 1)\<newline>'',
       [(''time'', FVec [0, 5]), (''out'', FVec [5, 6])]),
      (''Plotname: Transient Analysis `__mc_tran__tt_25-004': time = (0 1)\<newline>'',
       [(''time'', FVec [0, 5]), (''out'', FVec [7, 8])]),
      (''Plotname: Transient Analysis `__mc_tran__tt_25-005': time = (0 1)\<newline>'',
       [(''time'', FVec [0, 5]), (''out'', FVec [9, 10])])]"

definition ex_mc_group :: nb_dict where
  "ex_mc_group =
     \<lparr>data = [[(''time'', FVec [0, 5]), (''out'', FVec [1, 2])],
              [(''time'', FVec [0, 5]), (''out'', FVec [3, 4])],
              [(''time'', FVec [0, 5]), (''out'', FVec [5, 6])],
              [(''time'', FVec [0, 5]), (''out'', FVec [7, 8])],
              [(''time'', FVec [0, 5]), (''out'', FVec [9, 10])]],
      swp_combos = [], inner_sweep = ''time''\<rparr>"

definition ex_one_run :: nb_dict where
  "ex_one_run =
     \<lparr>data = [[(''time'', FVec [0, 5]), (''out'', FVec [1, 2])]],
      swp_combos = [], inner_sweep = ''time''\<rparr>"

definition ex_nb_data :: ana_dict where
  "ex_nb_data =
     [(''tran'', [(''tt_25'', ex_one_run), (''ff_m40'', ex_one_run)]),
      (''ac'', [(''tt_25'', ex_one_run)])]"

section \<open>Properties\<close>

subsection \<open>The output mapping\<close>

lemma update_keys: "fst ` set (AList.update k v d) = insert k (fst ` set d)"
  by (induction d) auto

lemma store_signals_other:
  "store_signals f ss d = Inr d' \<Longrightarrow> (\<forall>s \<in> set ss. \<forall>v. f s \<noteq> Inr (k, v)) \<Longrightarrow>
   map_of d' k = map_of d k"
proof (induction ss arbitrary: d)
  case Nil
  then show ?case by simp
next
  case (Cons s ss)
  from Cons.prems(1) obtain k' v' where fs: "f s = Inr (k', v')"
    and rest: "store_signals f ss (AList.update k' v' d) = Inr d'"
    by (auto split: sum.splits)
  from Cons.prems(2) fs have "k' \<noteq> k" by auto
  moreover from Cons.IH [OF rest] Cons.prems(2)
  have "map_of d' k = map_of (AList.update k' v' d) k" by simp
  ultimately show ?case by (simp add: update_conv')
qed

lemma store_signals_value:
  "store_signals f ss d = Inr d' \<Longrightarrow> s \<in> set ss \<Longrightarrow> f s = Inr (k, v) \<Longrightarrow>
   (\<forall>s' \<in> set ss. \<forall>v'. f s' = Inr (k, v') \<longrightarrow> s' = s) \<Longrightarrow> map_of d' k = Some v"
proof (induction ss arbitrary: d)
  case Nil
  then show ?case by simp
next
  case (Cons a ss)
  from Cons.prems(1) obtain k' v' where fa: "f a = Inr (k', v')"
    and rest: "store_signals f ss (AList.update k' v' d) = Inr d'"
    by (auto split: sum.splits)
  show ?case
  proof (cases "s \<in> set ss")
    case True
    with Cons.IH [OF rest True Cons.prems(3)] Cons.prems(4) show ?thesis by simp
  next
    case False
    with Cons.prems(2) have "a = s" by simp
    with fa Cons.prems(3) have kv: "k' = k" "v' = v" by simp_all
    have "\<forall>s' \<in> set ss. \<forall>v'. f s' \<noteq> Inr (k, v')"
      using Cons.prems(4) False by auto
    from store_signals_other [OF rest this] kv show ?thesis
      by (simp add: update_conv')
  qed
qed

lemma store_signals_keys:
  "store_signals f ss d = Inr d' \<Longrightarrow> (\<forall>s \<in> set ss. \<forall>k v. f s = Inr (k, v) \<longrightarrow> k = key s) \<Longrightarrow>
   fst ` set d' = fst ` set d \<union> key ` set ss"
proof (induction ss arbitrary: d)
  case Nil
  then show ?case by simp
next
  case (Cons a ss)
  from Cons.prems(1) obtain k' v' where fa: "f a = Inr (k', v')"
    and rest: "store_signals f ss (AList.update k' v' d) = Inr d'"
    by (auto split: sum.splits)
  from Cons.prems(2) fa have "k' = key a" by simp
  moreover from Cons.IH [OF rest] Cons.prems(2)
  have "fst ` set d' = fst ` set (AList.update k' v' d) \<union> key ` set ss" by simp
  ultimately show ?case by (auto simp: update_keys)
qed


lemma store_signals_all:
  "store_signals f ss d = Inr d' \<Longrightarrow> s \<in> set ss \<Longrightarrow> \<exists>k v. f s = Inr (k, v)"
proof (induction ss arbitrary: d)
  case Nil
  then show ?case by simp
next
  case (Cons a ss)
  from Cons.prems(1) obtain k' v' where fa: "f a = Inr (k', v')"
    and rest: "store_signals f ss (AList.update k' v' d) = Inr d'"
    by (auto split: sum.splits)
  with Cons show ?case by auto
qed

lemma single_signal_key:
  "single_signal shp inner sg = Inr (k, v) \<Longrightarrow> k = str_replace (fst sg) \<and> (\<exists>a. v = Signal a)"
  by (auto simp: single_signal_def Let_def split: if_splits sum.splits)

lemma stack_signal_key:
  "stack_signal shp n inner runs s = Inr (k, v) \<Longrightarrow> k = str_replace s \<and> (\<exists>a. v = Signal a)"
  by (auto simp: stack_signal_def Let_def split: if_splits sum.splits)

lemma md_combo_keys:
  "md_combo vars i vals d = Inr d' \<Longrightarrow> fst ` set d' = fst ` set d \<union> set vars"
  by (induction vars i vals d rule: md_combo.induct) (auto simp: update_keys split: if_splits)

lemma foldl_update_keys:
  "fst ` set (foldl (\<lambda>d var. AList.update var x d) d vars) = fst ` set d \<union> set vars"
  by (induction vars arbitrary: d) (auto simp: update_keys)

lemma sweep_data_keys:
  "sweep_data chk rtol atol vars n coords = Inr (md, shp, d) \<Longrightarrow> fst ` set d = set vars"
proof -
  assume a: "sweep_data chk rtol atol vars n coords = Inr (md, shp, d)"
  obtain o1 vals where c: "chk 1 coords rtol atol None = (o1, vals)" by (cases "chk 1 coords rtol atol None")
  show ?thesis
  proof (cases o1)
    case None
    with a c have "d = foldl (\<lambda>d var. AList.update var (SwpList coords) d) [] vars"
      by (simp add: sweep_data_def)
    then show ?thesis using foldl_update_keys [of "SwpList coords" "[]" vars] by simp
  next
    case (Some sh)
    with a c have "md_combo vars 0 vals [] = Inr d"
      by (simp add: sweep_data_def split: sum.splits)
    from md_combo_keys [OF this] show ?thesis by simp
  qed
qed

subsection \<open>Vectors, stacks and the signal loop\<close>

lemma get_yvecs_Inr:
  "get_yvecs runs s js = Inr ys \<Longrightarrow>
   length ys = length js \<and> (\<forall>j < length js. js ! j < length runs \<and> map_of (runs ! (js ! j)) s = Some (ys ! j))"
proof (induction js arbitrary: ys)
  case Nil
  then show ?case by simp
next
  case (Cons i js)
  from Cons.prems obtain y ys' where i: "i < length runs" "map_of (runs ! i) s = Some y"
    and r: "get_yvecs runs s js = Inr ys'" and ys: "ys = y # ys'"
    by (auto split: if_splits option.splits sum.splits)
  from Cons.IH [OF r] i ys show ?case
    by (auto simp: nth_Cons split: nat.splits)
qed

lemma get_yvecs_eq:
  "length ys = length js \<Longrightarrow>
   (\<forall>j < length js. js ! j < length runs \<and> map_of (runs ! (js ! j)) s = Some (ys ! j)) \<Longrightarrow>
   get_yvecs runs s js = Inr ys"
proof (induction js arbitrary: ys)
  case Nil
  then show ?case by simp
next
  case (Cons i js)
  from Cons.prems(1) obtain y ys' where ys: "ys = y # ys'" and l: "length ys' = length js"
    by (cases ys) auto
  from Cons.prems(2) ys have h: "i < length runs" "map_of (runs ! i) s = Some y"
    by auto
  have "\<forall>j < length js. js ! j < length runs \<and> map_of (runs ! (js ! j)) s = Some (ys' ! j)"
  proof (intro allI impI)
    fix j assume "j < length js"
    then have "Suc j < length (i # js)" by simp
    from Cons.prems(2) [rule_format, OF this] ys
    show "js ! j < length runs \<and> map_of (runs ! (js ! j)) s = Some (ys' ! j)" by simp
  qed
  from Cons.IH [OF l this] h ys show ?case by simp
qed

lemma concat_row:
  "\<forall>x \<in> set xss. length x = d \<Longrightarrow> k < length xss \<Longrightarrow> take d (drop (k * d) (concat xss)) = xss ! k"
proof (induction xss arbitrary: k)
  case Nil
  then show ?case by simp
next
  case (Cons x xss)
  show ?case
  proof (cases k)
    case 0
    with Cons.prems show ?thesis by simp
  next
    case (Suc j)
    with Cons.prems have "take d (drop (j * d) (concat xss)) = xss ! j"
      by (intro Cons.IH) auto
    with Suc Cons.prems show ?thesis by simp
  qed
qed

lemma length_concat_same:
  "\<forall>x \<in> set xss. length x = d \<Longrightarrow> length (concat xss) = length xss * d"
  by (induction xss) auto

lemma length_as_complex [simp]: "length (as_complex v) = vlen v"
  by (cases v) auto

lemma length_as_float [simp]: "length (as_float v) = vlen v"
  by (cases v) auto

lemma vlen_np_pad [simp]: "vlen (np_pad v j) = vlen v + j"
  by (cases v) auto

lemma np_pad_0 [simp]: "np_pad v 0 = v"
  by (cases v) auto

lemma vlen_np_concat:
  "\<forall>v \<in> set vs. vlen v = d \<Longrightarrow> vlen (np_concat vs) = length vs * d"
  using length_concat_same [of "map as_complex vs" d] length_concat_same [of "map as_float vs" d]
  by (auto simp: np_concat_def)

lemma np_concat_row:
  assumes "\<forall>v \<in> set vs. vlen v = d" and "k < length vs"
  shows "vslice (np_concat vs) (k * d) d = np_cast (\<exists>v \<in> set vs. is_complex v) (vs ! k)"
  using assms concat_row [of "map as_complex vs" d k] concat_row [of "map as_float vs" d k]
  by (auto simp: np_concat_def np_cast_def)

lemma np_cast_pad:
  "(is_complex v \<longrightarrow> c) \<Longrightarrow> np_cast c (np_pad v j) = np_pad (np_cast c v) j"
  by (cases v) (auto simp: np_cast_def)

lemma np_cast_same: "c = is_complex v \<Longrightarrow> np_cast c v = v"
  by (cases v) (auto simp: np_cast_def)

lemma Max_all_same:
  assumes "ys \<noteq> []" and all0: "\<forall>y \<in> set ys. vlen y = d"
  shows "Max (set (map vlen ys)) = d"
proof (rule Max_eqI)
  show "finite (set (map vlen ys))" by simp
  show "\<And>y. y \<in> set (map vlen ys) \<Longrightarrow> y \<le> d" using all0 by auto
  from assms(1) obtain y where "y \<in> set ys" by (cases ys) auto
  with all0 show "d \<in> set (map vlen ys)" by force
qed

lemma same_len_iff:
  assumes len: "length ys = n" and n: "0 < n"
  shows "(\<forall>i \<in> set [0..<n]. map vlen ys ! i = map vlen ys ! 0) \<longleftrightarrow>
         (\<forall>y \<in> set ys. vlen y = Max (set (map vlen ys)))"
proof
  from len n have ne: "ys \<noteq> []" by auto
  from len n have l0: "0 < length ys" by simp
  {
    assume a: "\<forall>i \<in> set [0..<n]. map vlen ys ! i = map vlen ys ! 0"
    have all0: "\<forall>y \<in> set ys. vlen y = vlen (ys ! 0)"
    proof
      fix y assume "y \<in> set ys"
      then obtain i where i: "i < length ys" "ys ! i = y" by (auto simp: in_set_conv_nth)
      then have "i \<in> set [0..<n]" using len by simp
      with a have "map vlen ys ! i = map vlen ys ! 0" by blast
      with i l0 show "vlen y = vlen (ys ! 0)" by simp
    qed
    from Max_all_same [OF ne all0] all0
    show "\<forall>y \<in> set ys. vlen y = Max (set (map vlen ys))" by simp
  }
  {
    assume a: "\<forall>y \<in> set ys. vlen y = Max (set (map vlen ys))"
    show "\<forall>i \<in> set [0..<n]. map vlen ys ! i = map vlen ys ! 0"
    proof
      fix i assume "i \<in> set [0..<n]"
      with len have i: "i < length ys" by simp
      from i have "ys ! i \<in> set ys" by (rule nth_mem)
      moreover from l0 have "ys ! 0 \<in> set ys" by (rule nth_mem)
      ultimately have "vlen (ys ! i) = vlen (ys ! 0)" using a by metis
      with i l0 show "map vlen ys ! i = map vlen ys ! 0" by simp
    qed
  }
qed

lemma zip_pad:
  "map (\<lambda>(yvec, dim). np_pad yvec (m - dim)) (zip ys (map vlen ys)) =
   map (\<lambda>y. np_pad y (m - vlen y)) ys"
  by (induction ys) simp_all

lemma vlen_le_Max: "y \<in> set ys \<Longrightarrow> vlen y \<le> Max (set (map vlen ys))"
  by simp

lemma np_stack_same:
  "vs \<noteq> [] \<Longrightarrow> \<forall>u \<in> set vs. vlen u = d \<Longrightarrow>
   np_stack vs = Inr (NDArray [length vs, d] (np_concat vs))"
  by (cases vs) (simp_all add: np_stack_def)

lemma np_reshape_stack:
  "np_reshape (NDArray [n, m] P) (shp @ [m]) =
      (if prod_list shp * m = vlen P then Inr (NDArray (shp @ [m]) P)
       else Inl (ValueError ''cannot reshape array''))"
  by (simp add: np_reshape_def)

lemma stack_signal_result:
  assumes st: "stack_signal shp n inner runs s = Inr (k, v)"
    and n: "0 < n"
    and ys: "get_yvecs runs s [0..<n] = Inr ys"
  shows "k = str_replace s \<and>
    (if (\<forall>y \<in> set ys. vlen y = Max (set (map vlen ys))) \<and> str_replace s = inner
     then v = Signal (NDArray [vlen (ys ! 0)] (ys ! 0))
     else v = Signal (NDArray (shp @ [Max (set (map vlen ys))])
                (np_concat (map (\<lambda>y. np_pad y (Max (set (map vlen ys)) - vlen y)) ys))) \<and>
          prod_list shp * Max (set (map vlen ys)) = n * Max (set (map vlen ys)))"
proof -
  define m where "m = Max (set (map vlen ys))"
  define P where "P = map (\<lambda>y. np_pad y (m - vlen y)) ys"
  from get_yvecs_Inr [OF ys] have len: "length ys = n" by simp
  with n have ne: "ys \<noteq> []" by auto
  note same = same_len_iff [OF len n, folded m_def]
  have padlen: "\<forall>u \<in> set P. vlen u = m"
    unfolding P_def m_def by auto
  have Pne: "P \<noteq> []" and Plen: "length P = n"
    using ne len by (simp_all add: P_def)
  have stackpad: "np_stack P = Inr (NDArray [n, m] (np_concat P))"
    using np_stack_same [OF Pne padlen] Plen by simp
  have vl: "vlen (np_concat P) = n * m"
    using vlen_np_concat [OF padlen] Plen by simp
  have unf: "stack_signal shp n inner runs s =
      (if \<not> (\<forall>y \<in> set ys. vlen y = m)
       then (case np_stack P of
               Inl e \<Rightarrow> Inl e
             | Inr sig_y \<Rightarrow>
                 (case np_reshape sig_y (shp @ [m]) of
                    Inl e \<Rightarrow> Inl e
                  | Inr a \<Rightarrow> Inr (str_replace s, Signal a)))
       else if str_replace s = inner
       then Inr (str_replace s, Signal (NDArray [vlen (ys ! 0)] (ys ! 0)))
       else (case np_stack ys of
               Inl e \<Rightarrow> Inl e
             | Inr sig_y \<Rightarrow>
                 (case np_reshape sig_y (shp @ [m]) of
                    Inl e \<Rightarrow> Inl e
                  | Inr a \<Rightarrow> Inr (str_replace s, Signal a))))"
    unfolding m_def P_def
    by (simp only: stack_signal_def ys Let_def sum.case zip_pad same_len_iff [OF len n])
  show ?thesis
  proof (cases "\<forall>y \<in> set ys. vlen y = m")
    case True
    then have id: "P = ys"
      unfolding P_def by (induction ys) auto
    have eq: "stack_signal shp n inner runs s =
       (if str_replace s = inner then Inr (str_replace s, Signal (NDArray [vlen (ys ! 0)] (ys ! 0)))
        else if prod_list shp * m = n * m
        then Inr (str_replace s, Signal (NDArray (shp @ [m]) (np_concat P)))
        else Inl (ValueError ''cannot reshape array''))"
      unfolding unf using True stackpad vl id
      by (simp add: np_reshape_stack)
    from st [unfolded eq] True show ?thesis
      unfolding m_def [symmetric] P_def [symmetric]
      by (simp split: if_splits)
  next
    case False
    have eq: "stack_signal shp n inner runs s =
       (if prod_list shp * m = n * m
        then Inr (str_replace s, Signal (NDArray (shp @ [m]) (np_concat P)))
        else Inl (ValueError ''cannot reshape array''))"
      unfolding unf using False stackpad vl
      by (simp add: np_reshape_stack)
    from st [unfolded eq] False show ?thesis
      unfolding m_def [symmetric] P_def [symmetric]
      by (auto split: if_splits)
  qed
qed

lemma store_signals_origin:
  "store_signals f ss d = Inr d' \<Longrightarrow> map_of d' k = Some v \<Longrightarrow>
   map_of d k = Some v \<or> (\<exists>s \<in> set ss. f s = Inr (k, v))"
proof (induction ss arbitrary: d)
  case Nil
  then show ?case by simp
next
  case (Cons a ss)
  from Cons.prems(1) obtain k' v' where fa: "f a = Inr (k', v')"
    and rest: "store_signals f ss (AList.update k' v' d) = Inr d'"
    by (auto split: sum.splits)
  from Cons.IH [OF rest Cons.prems(2)]
  have "map_of (AList.update k' v' d) k = Some v \<or> (\<exists>s \<in> set ss. f s = Inr (k, v))" .
  then show ?case
  proof
    assume "map_of (AList.update k' v' d) k = Some v"
    then have "(k = k' \<and> v = v') \<or> map_of d k = Some v"
      by (auto simp: update_conv' split: if_splits)
    with fa show ?thesis by auto
  next
    assume "\<exists>s \<in> set ss. f s = Inr (k, v)"
    then show ?thesis by auto
  qed
qed

lemma convert_Inr:
  assumes "convert_to_analysis_data chk mc nb rtol atol ty = Inr ad"
  obtains swp_vars swp_len coords md shp d0 run0 others where
    "sweep_setup mc ty nb = Inr (swp_vars, swp_len, coords)"
    "sweep_data chk rtol atol swp_vars swp_len coords = Inr (md, shp, d0)"
    "data nb = run0 # others"
    "swp_len = 0 \<Longrightarrow> store_signals (single_signal shp (inner_sweep nb)) run0 d0 = Inr (ad_data ad)"
    "0 < swp_len \<Longrightarrow>
       store_signals (stack_signal shp swp_len (inner_sweep nb) (data nb)) (map fst run0) d0 =
       Inr (ad_data ad)"
    "sweep_params ad =
       ''corner'' # swp_vars @ (if inner_sweep nb \<noteq> [] then [inner_sweep nb] else [])"
    "is_md ad = md"
proof -
  from assms obtain swp_vars swp_len coords where
    a: "sweep_setup mc ty nb = Inr (swp_vars, swp_len, coords)"
    by (cases "sweep_setup mc ty nb") (auto simp: convert_to_analysis_data_def)
  from assms a obtain md shp d0 where
    b: "sweep_data chk rtol atol swp_vars swp_len coords = Inr (md, shp, d0)"
    by (cases "sweep_data chk rtol atol swp_vars swp_len coords")
       (auto simp: convert_to_analysis_data_def)
  from assms a b obtain run0 others where c: "data nb = run0 # others"
    by (cases "data nb") (auto simp: convert_to_analysis_data_def)
  from assms a b c have d:
    "(if swp_len = 0 then store_signals (single_signal shp (inner_sweep nb)) run0 d0
      else store_signals (stack_signal shp swp_len (inner_sweep nb) (data nb)) (map fst run0) d0) =
     Inr (ad_data ad)"
    and e: "sweep_params ad =
       ''corner'' # swp_vars @ (if inner_sweep nb \<noteq> [] then [inner_sweep nb] else [])"
    and f: "is_md ad = md"
    by (auto simp: convert_to_analysis_data_def split: sum.splits if_splits)
  from d have d1: "swp_len = 0 \<Longrightarrow> store_signals (single_signal shp (inner_sweep nb)) run0 d0 = Inr (ad_data ad)"
    and d2: "0 < swp_len \<Longrightarrow>
       store_signals (stack_signal shp swp_len (inner_sweep nb) (data nb)) (map fst run0) d0 =
       Inr (ad_data ad)"
    by (auto split: if_splits)
  from a b c d1 d2 e f show ?thesis by (rule that)
qed

subsection \<open>A stacked signal in the output mapping\<close>

lemmas conv_eval = convert_to_analysis_data_def sweep_setup_def combo_columns_def
  str_of_nat.simps sweep_data_def check_is_md_def stack_signal_def single_signal_def
  str_replace_def np_stack_def np_reshape_def np_concat_def np_linspace_int_def

lemma is_complex_np_pad [simp]: "is_complex (np_pad y j) = is_complex y"
  by (cases y) auto

lemma stack_signal_yvecs:
  assumes "stack_signal shp n inner runs s = Inr (k, v)"
  obtains ys where "get_yvecs runs s [0..<n] = Inr ys"
  using assms by (cases "get_yvecs runs s [0..<n]") (auto simp: stack_signal_def)

lemma stored_stack:
  assumes conv: "convert_to_analysis_data chk mc nb rtol atol ty = Inr ad"
    and stp: "sweep_setup mc ty nb = Inr (swp_vars, swp_len, coords)"
    and pos: "0 < swp_len"
    and run0: "data nb = run0 # others"
    and s: "s \<in> fst ` set run0"
    and uniq: "\<forall>s' \<in> fst ` set run0. str_replace s' = str_replace s \<longrightarrow> s' = s"
    and len: "length ys = swp_len"
    and ys: "\<forall>k < swp_len. map_of (data nb ! k) s = Some (ys ! k)"
  obtains shp d0 md v where
    "sweep_data chk rtol atol swp_vars swp_len coords = Inr (md, shp, d0)"
    "stack_signal shp swp_len (inner_sweep nb) (data nb) s = Inr (str_replace s, v)"
    "get_yvecs (data nb) s [0..<swp_len] = Inr ys"
    "map_of (ad_data ad) (str_replace s) = Some v"
proof -
  obtain vars' len' coords' md shp d0 run0' others' where
    a: "sweep_setup mc ty nb = Inr (vars', len', coords')"
    and b: "sweep_data chk rtol atol vars' len' coords' = Inr (md, shp, d0)"
    and c: "data nb = run0' # others'"
    and d2: "0 < len' \<Longrightarrow>
       store_signals (stack_signal shp len' (inner_sweep nb) (data nb)) (map fst run0') d0 =
       Inr (ad_data ad)"
    by (rule convert_Inr [OF conv]) blast
  from a stp have eqs: "vars' = swp_vars" "len' = swp_len" "coords' = coords" by simp_all
  from c run0 have r: "run0' = run0" by simp
  let ?f = "stack_signal shp swp_len (inner_sweep nb) (data nb)"
  from d2 pos eqs r have st: "store_signals ?f (map fst run0) d0 = Inr (ad_data ad)" by simp
  from s have sg: "s \<in> set (map fst run0)" by simp
  from store_signals_all [OF st sg] obtain k v where kv: "?f s = Inr (k, v)" by blast
  from stack_signal_key [OF kv] have k: "k = str_replace s" by simp
  have "\<forall>s' \<in> set (map fst run0). \<forall>v'. ?f s' = Inr (k, v') \<longrightarrow> s' = s"
    using uniq k by (auto dest!: stack_signal_key)
  from store_signals_value [OF st sg kv this] k
  have val: "map_of (ad_data ad) (str_replace s) = Some v" by simp
  from kv obtain ys' where g: "get_yvecs (data nb) s [0..<swp_len] = Inr ys'"
    by (rule stack_signal_yvecs)
  from get_yvecs_Inr [OF g] have l': "length ys' = swp_len"
    and n': "\<forall>j < swp_len. map_of (data nb ! j) s = Some (ys' ! j)" by auto
  have "ys' = ys"
  proof (rule nth_equalityI)
    show "length ys' = length ys" using l' len by simp
    fix i assume "i < length ys'"
    with l' n' ys show "ys' ! i = ys ! i" by auto
  qed
  with g have g2: "get_yvecs (data nb) s [0..<swp_len] = Inr ys" by simp
  from b eqs have b': "sweep_data chk rtol atol swp_vars swp_len coords = Inr (md, shp, d0)" by simp
  from kv k have kv': "?f s = Inr (str_replace s, v)" by simp
  from b' kv' g2 val show ?thesis by (rule that)
qed

lemma stacked_signal:
  assumes conv: "convert_to_analysis_data chk mc nb rtol atol ty = Inr ad"
    and stp: "sweep_setup mc ty nb = Inr (swp_vars, swp_len, coords)"
    and pos: "0 < swp_len"
    and run0: "data nb = run0 # others"
    and s: "s \<in> fst ` set run0"
    and uniq: "\<forall>s' \<in> fst ` set run0. str_replace s' = str_replace s \<longrightarrow> s' = s"
    and len: "length ys = swp_len"
    and ys: "\<forall>k < swp_len. map_of (data nb ! k) s = Some (ys ! k)"
    and m: "m = Max (set (map vlen ys))"
    and c: "c = (\<exists>y \<in> set ys. is_complex y)"
  shows "\<exists>a shp md d0.
     sweep_data chk rtol atol swp_vars swp_len coords = Inr (md, shp, d0) \<and>
     map_of (ad_data ad) (str_replace s) = Some (Signal a) \<and>
     (if (\<forall>y \<in> set ys. vlen y = m) \<and> str_replace s = inner_sweep nb
      then a = NDArray [m] (ys ! 0)
      else shape a = shp @ [m] \<and> vlen (flat a) = swp_len * m \<and>
           (\<forall>k < swp_len. vslice (flat a) (k * m) m =
                          np_pad (np_cast c (ys ! k)) (m - vlen (ys ! k))) \<and>
           ((\<forall>y \<in> set ys. vlen y = m) \<longrightarrow> flat a = np_concat ys))"
proof -
  obtain shp d0 md v where
    sd: "sweep_data chk rtol atol swp_vars swp_len coords = Inr (md, shp, d0)"
    and st: "stack_signal shp swp_len (inner_sweep nb) (data nb) s = Inr (str_replace s, v)"
    and g: "get_yvecs (data nb) s [0..<swp_len] = Inr ys"
    and val: "map_of (ad_data ad) (str_replace s) = Some v"
    by (rule stored_stack [OF conv stp pos run0 s uniq len ys]) blast
  define P where "P = map (\<lambda>y. np_pad y (m - vlen y)) ys"
  note res = stack_signal_result [OF st pos g, folded m, folded P_def]
  have padlen: "\<forall>u \<in> set P. vlen u = m"
    unfolding P_def m by auto
  have Plen: "length P = swp_len" using len by (simp add: P_def)
  have Pc: "(\<exists>v \<in> set P. is_complex v) = c"
    unfolding P_def c by auto
  have rows: "\<forall>k < swp_len. vslice (np_concat P) (k * m) m =
                np_pad (np_cast c (ys ! k)) (m - vlen (ys ! k))"
  proof (intro allI impI)
    fix k assume k: "k < swp_len"
    with Plen have "vslice (np_concat P) (k * m) m = np_cast c (P ! k)"
      using np_concat_row [OF padlen, of k] Pc by simp
    also have "P ! k = np_pad (ys ! k) (m - vlen (ys ! k))"
      using k len by (simp add: P_def)
    also have "np_cast c (np_pad (ys ! k) (m - vlen (ys ! k))) =
               np_pad (np_cast c (ys ! k)) (m - vlen (ys ! k))"
    proof (rule np_cast_pad)
      from k len have "ys ! k \<in> set ys" by simp
      then show "is_complex (ys ! k) \<longrightarrow> c" unfolding c by blast
    qed
    finally show "vslice (np_concat P) (k * m) m =
                  np_pad (np_cast c (ys ! k)) (m - vlen (ys ! k))" .
  qed
  have vl: "vlen (np_concat P) = swp_len * m"
    using vlen_np_concat [OF padlen] Plen by simp
  have same: "(\<forall>y \<in> set ys. vlen y = m) \<longrightarrow> P = ys"
    unfolding P_def by (auto intro: map_idI)
  from pos len have "ys \<noteq> []" by auto
  then have m0: "(\<forall>y \<in> set ys. vlen y = m) \<longrightarrow> vlen (ys ! 0) = m"
    by (cases ys) auto
  show ?thesis
  proof (cases "(\<forall>y \<in> set ys. vlen y = m) \<and> str_replace s = inner_sweep nb")
    case True
    with res m0 have "v = Signal (NDArray [m] (ys ! 0))" by simp
    with val sd True show ?thesis by simp
  next
    case False
    with res have v: "v = Signal (NDArray (shp @ [m]) (np_concat P))" by auto
    from False have F: "((\<forall>y \<in> set ys. vlen y = m) \<and> str_replace s = inner_sweep nb) = False"
      by simp
    show ?thesis
      unfolding F using val sd v rows vl same by auto
  qed
qed



subsection \<open>Groups without a sweep level\<close>

text \<open>
  C9. In a group with no outer combination recorded, outside Monte-Carlo mode and for an
  analysis type other than pac, the reconstruction reads run 0 only: the runs accumulated
  after it can be dropped from the group without changing the result, whatever the grid
  detector answers.
\<close>

theorem zero_sweep_reads_run0_only:
  assumes "swp_combos nb = []" and "ty \<noteq> ''pac''"
  shows "convert_to_analysis_data chk False (nb\<lparr>data := run0 # others\<rparr>) rtol atol ty =
         convert_to_analysis_data chk False (nb\<lparr>data := [run0]\<rparr>) rtol atol ty"
  using assms by (simp add: convert_to_analysis_data_def sweep_setup_def split: sum.splits prod.splits)

text \<open>
  An instance with a second run of other signals and lengths; the result holds the
  inner-sweep vector of run 0.
\<close>

theorem zero_sweep_reads_run0_only_witness:
  "swp_combos \<lparr>data = [], swp_combos = [], inner_sweep = ''time''\<rparr> = [] \<and> ''tran'' \<noteq> ''pac'' \<and>
   convert_to_analysis_data check_is_md False
     \<lparr>data = [[(''time'', FVec [1, 2, 3])], [(''time'', FVec [1, 2]), (''v/out'', FVec [20, 21])]],
      swp_combos = [], inner_sweep = ''time''\<rparr> () () ''tran'' =
   convert_to_analysis_data check_is_md False
     \<lparr>data = [[(''time'', FVec [1, 2, 3])]], swp_combos = [], inner_sweep = ''time''\<rparr> () () ''tran'' \<and>
   convert_to_analysis_data check_is_md False
     \<lparr>data = [[(''time'', FVec [1, 2, 3])]], swp_combos = [], inner_sweep = ''time''\<rparr> () () ''tran'' =
   Inr \<lparr>sweep_params = [''corner'', ''time''],
        ad_data = [(''time'', Signal (NDArray [3] (FVec [1, 2, 3])))], is_md = False\<rparr>"
proof -
  have e: "convert_to_analysis_data check_is_md False
     \<lparr>data = [[(''time'', FVec [1, 2, 3])]], swp_combos = [], inner_sweep = ''time''\<rparr> () () ''tran'' =
   Inr \<lparr>sweep_params = [''corner'', ''time''],
        ad_data = [(''time'', Signal (NDArray [3] (FVec [1, 2, 3])))], is_md = False\<rparr>"
    by (simp add: convert_to_analysis_data_def sweep_setup_def sweep_data_def check_is_md_def
        single_signal_def str_replace_def)
  show ?thesis
    using zero_sweep_reads_run0_only [of "\<lparr>data = [], swp_combos = [], inner_sweep = ''time''\<rparr>" "''tran''"
        check_is_md "[(''time'', FVec [1, 2, 3])]" "[[(''time'', FVec [1, 2]), (''v/out'', FVec [20, 21])]]" "()" "()"] e
    by simp
qed


subsection \<open>Signal names\<close>



subsection \<open>Runs of unequal length\<close>



subsection \<open>The 2 by 2 grid\<close>

lemma ravel_2_2: "k < 4 \<Longrightarrow> ravel_index [2, 2] [k div 2, k mod 2] = k"
  by (simp add: ravel_index_def)

lemma grid_setup:
  assumes four: "length (swp_combos nb) = 4"
    and grid: "set (swp_combos nb) = {[0, 0], [0, 1], [1, 0], [1, 1]}"
    and nopac: "ty \<noteq> ''pac''"
  shows "sweep_setup False ty nb =
         Inr ([''sweep0'', ''sweep1''], 4,
              [map (\<lambda>c. c ! 0) (swp_combos nb), map (\<lambda>c. c ! 1) (swp_combos nb)])"
proof -
  from four obtain c0 cs where cs: "swp_combos nb = c0 # cs" by (cases "swp_combos nb") auto
  from grid have l: "\<forall>c \<in> set (swp_combos nb). length c = 2" by auto
  with cs have l0: "length c0 = 2" by simp
  have u: "[0..<2] = [0, Suc 0]" by (simp add: upt_rec)
  from l cs have "combo_columns (swp_combos nb) 2 =
      Inr [map (\<lambda>c. c ! 0) (swp_combos nb), map (\<lambda>c. c ! 1) (swp_combos nb)]"
    by (simp add: combo_columns_def u)
  with cs l0 four nopac u show ?thesis
    by (simp add: sweep_setup_def str_of_nat.simps)
qed

text \<open>
  C1, as stated, fails: the runs are stacked in arrival order and never sorted by their
  combination tuples. With the tuples arriving as (0,0), (1,0), (0,1), (1,1) the detector
  modelled from the spec reports the shape (2,2), and the vector of run 1, whose tuple is
  (1,0), is found at coordinate (0,1), while coordinate (1,0) holds the vector of run 2.
\<close>

theorem permuted_grid_misplaced:
  "convert_to_analysis_data check_is_md False (ex_grid [[0, 0], [1, 0], [0, 1], [1, 1]]) () ()
     ''tran'' = Inr ex_grid_out \<and>
   map_of (ad_data ex_grid_out) ''v'' =
     Some (Signal (NDArray [2, 2, 2] (FVec [1, 2, 11, 12, 21, 22, 31, 32]))) \<and>
   swp_combos (ex_grid [[0, 0], [1, 0], [0, 1], [1, 1]]) ! 1 = [1, 0] \<and>
   map_of (data (ex_grid [[0, 0], [1, 0], [0, 1], [1, 1]]) ! 1) ''v'' = Some (FVec [11, 12]) \<and>
   nd_index (NDArray [2, 2, 2] (FVec [1, 2, 11, 12, 21, 22, 31, 32])) [1, 0] = FVec [21, 22] \<and>
   nd_index (NDArray [2, 2, 2] (FVec [1, 2, 11, 12, 21, 22, 31, 32])) [0, 1] = FVec [11, 12]"
  by (simp add: conv_eval ex_grid_def ex_grid_out_def nd_index_def ravel_index_def)

text \<open>
  C1, amended. For four runs whose tuples form the grid, when the detector reports the
  shape (2,2), every signal other than the inner-sweep signal is stored with outer shape
  (2,2) and run \<open>k\<close>, in arrival order, is at the row-major coordinate
  \<open>(k div 2, k mod 2)\<close>. That is the coordinate of its own tuple exactly for the runs whose
  tuple is \<open>(k div 2, k mod 2)\<close>, as all are when the runs arrive in the order (0,0), (0,1),
  (1,0), (1,1).
\<close>

theorem grid_runs_placed_in_arrival_order:
  assumes conv: "convert_to_analysis_data chk False nb rtol atol ty = Inr ad"
    and nopac: "ty \<noteq> ''pac''"
    and four: "length (swp_combos nb) = 4"
    and grid: "set (swp_combos nb) = {[0, 0], [0, 1], [1, 0], [1, 1]}"
    and det: "chk 1 [map (\<lambda>c. c ! 0) (swp_combos nb), map (\<lambda>c. c ! 1) (swp_combos nb)]
                rtol atol None = (Some [2, 2], vals)"
    and run0: "data nb = run0 # others"
    and s: "s \<in> fst ` set run0"
    and uniq: "\<forall>s' \<in> fst ` set run0. str_replace s' = str_replace s \<longrightarrow> s' = s"
    and notinner: "str_replace s \<noteq> inner_sweep nb"
    and len: "length ys = 4"
    and ys: "\<forall>k < 4. map_of (data nb ! k) s = Some (ys ! k)"
    and m: "m = Max (set (map vlen ys))"
    and c: "c = (\<exists>y \<in> set ys. is_complex y)"
  shows "\<exists>a. map_of (ad_data ad) (str_replace s) = Some (Signal a) \<and> shape a = [2, 2, m] \<and>
     (\<forall>k < 4. nd_index a [k div 2, k mod 2] =
              np_pad (np_cast c (ys ! k)) (m - vlen (ys ! k))) \<and>
     (\<forall>k < 4. swp_combos nb ! k = [int (k div 2), int (k mod 2)] \<longrightarrow>
              nd_index a (map nat (swp_combos nb ! k)) =
              np_pad (np_cast c (ys ! k)) (m - vlen (ys ! k)))"
proof -
  let ?coords = "[map (\<lambda>c. c ! 0) (swp_combos nb), map (\<lambda>c. c ! 1) (swp_combos nb)]"
  note stp = grid_setup [OF four grid nopac]
  have pos: "(0::nat) < 4" by simp
  from stacked_signal [OF conv stp pos run0 s uniq len ys m c] notinner
  obtain a shp md d0 where
    sd: "sweep_data chk rtol atol [''sweep0'', ''sweep1''] 4 ?coords = Inr (md, shp, d0)"
    and val: "map_of (ad_data ad) (str_replace s) = Some (Signal a)"
    and sh: "shape a = shp @ [m]"
    and rows: "\<forall>k < 4. vslice (flat a) (k * m) m =
                       np_pad (np_cast c (ys ! k)) (m - vlen (ys ! k))"
    by auto
  from sd det have shp: "shp = [2, 2]"
    by (auto simp: sweep_data_def split: sum.splits)
  have idx: "\<forall>k < 4. nd_index a [k div 2, k mod 2] =
                     np_pad (np_cast c (ys ! k)) (m - vlen (ys ! k))"
  proof (intro allI impI)
    fix k :: nat assume k: "k < 4"
    from sh shp have "nd_index a [k div 2, k mod 2] =
        vslice (flat a) (ravel_index [2, 2] [k div 2, k mod 2] * m) m"
      by (simp add: nd_index_def)
    with ravel_2_2 [OF k] rows k
    show "nd_index a [k div 2, k mod 2] = np_pad (np_cast c (ys ! k)) (m - vlen (ys ! k))"
      by simp
  qed
  have "\<forall>k < 4. swp_combos nb ! k = [int (k div 2), int (k mod 2)] \<longrightarrow>
              nd_index a (map nat (swp_combos nb ! k)) =
              np_pad (np_cast c (ys ! k)) (m - vlen (ys ! k))"
    using idx by auto
  with val sh shp idx show ?thesis by auto
qed

text \<open>The grid in file order: each run is at the coordinate of its tuple.\<close>

theorem grid_runs_placed_in_arrival_order_witness:
  "convert_to_analysis_data check_is_md False (ex_grid [[0, 0], [0, 1], [1, 0], [1, 1]]) () ()
     ''tran'' = Inr ex_grid_out \<and>
   check_is_md 1 [[0, 0, 1, 1], [0, 1, 0, 1]] () () None = (Some [2, 2], [[0, 1], [0, 1]]) \<and>
   (\<exists>a. map_of (ad_data ex_grid_out) ''v'' = Some (Signal a) \<and> shape a = [2, 2, 2] \<and>
        nd_index a [0, 0] = FVec [1, 2] \<and> nd_index a [0, 1] = FVec [11, 12] \<and>
        nd_index a [1, 0] = FVec [21, 22] \<and> nd_index a [1, 1] = FVec [31, 32])"
proof -
  let ?nb = "ex_grid [[0, 0], [0, 1], [1, 0], [1, 1]]"
  let ?ys = "[FVec [1, 2], FVec [11, 12], FVec [21, 22], FVec [31, 32]]"
  let ?r0 = "[(''time'', FVec [0, 5]), (''v'', FVec [1, 2])]"
  have h1: "convert_to_analysis_data check_is_md False ?nb () () ''tran'' = Inr ex_grid_out"
    by (simp add: conv_eval ex_grid_def ex_grid_out_def)
  have h2: "''tran'' \<noteq> ''pac''" by simp
  have h3: "length (swp_combos ?nb) = 4" by (simp add: ex_grid_def)
  have h4: "set (swp_combos ?nb) = {[0, 0], [0, 1], [1, 0], [1, 1]}" by (simp add: ex_grid_def)
  have h5: "check_is_md 1 [map (\<lambda>c. c ! 0) (swp_combos ?nb), map (\<lambda>c. c ! 1) (swp_combos ?nb)]
              () () None = (Some [2, 2], [[0, 1], [0, 1]])"
    by (simp add: ex_grid_def check_is_md_def)
  have h6: "data ?nb = ?r0 # tl (data ?nb)" by (simp add: ex_grid_def)
  have h7: "''v'' \<in> fst ` set ?r0" by simp
  have h8: "\<forall>s' \<in> fst ` set ?r0. str_replace s' = str_replace ''v'' \<longrightarrow> s' = ''v''"
    by (simp add: str_replace_def)
  have h9: "str_replace ''v'' \<noteq> inner_sweep ?nb" by (simp add: str_replace_def ex_grid_def)
  have h10: "length ?ys = 4" by simp
  have h11: "\<forall>k < 4. map_of (data ?nb ! k) ''v'' = Some (?ys ! k)"
  proof (intro allI impI)
    fix k :: nat assume "k < 4"
    then have "k = 0 \<or> k = 1 \<or> k = 2 \<or> k = 3" by arith
    then show "map_of (data ?nb ! k) ''v'' = Some (?ys ! k)"
      by (auto simp: ex_grid_def)
  qed
  have h12: "2 = Max (set (map vlen ?ys))" by simp
  have h13: "False = (\<exists>y \<in> set ?ys. is_complex y)" by simp
  from grid_runs_placed_in_arrival_order [where chk = check_is_md and nb = "?nb"
      and rtol = "()" and atol = "()" and ty = "''tran''" and ad = ex_grid_out
      and vals = "[[0, 1], [0, 1]]" and ?run0.0 = "?r0" and others = "tl (data ?nb)"
      and s = "''v''" and ys = "?ys" and m = 2 and c = False,
      OF h1 h2 h3 h4 h5 h6 h7 h8 h9 h10 h11 h12 h13]
  obtain a where "map_of (ad_data ex_grid_out) (str_replace ''v'') = Some (Signal a) \<and>
      shape a = [2, 2, 2] \<and>
      (\<forall>k < 4. nd_index a [k div 2, k mod 2] =
                np_pad (np_cast False (?ys ! k)) (2 - vlen (?ys ! k))) \<and>
      (\<forall>k < 4. swp_combos ?nb ! k = [int (k div 2), int (k mod 2)] \<longrightarrow>
              nd_index a (map nat (swp_combos ?nb ! k)) =
              np_pad (np_cast False (?ys ! k)) (2 - vlen (?ys ! k)))" ..
  then have a: "map_of (ad_data ex_grid_out) (str_replace ''v'') = Some (Signal a)"
    and sh: "shape a = [2, 2, 2]"
    and rows: "\<forall>k < 4. nd_index a [k div 2, k mod 2] =
                np_pad (np_cast False (?ys ! k)) (2 - vlen (?ys ! k))"
    by (rule conjunct1, rule conjunct2 [THEN conjunct1], rule conjunct2 [THEN conjunct2, THEN conjunct1])
  from rows [rule_format, of 0] rows [rule_format, of 1] rows [rule_format, of 2]
    rows [rule_format, of 3]
  have "nd_index a [0, 0] = FVec [1, 2]" "nd_index a [0, 1] = FVec [11, 12]"
    "nd_index a [1, 0] = FVec [21, 22]" "nd_index a [1, 1] = FVec [31, 32]"
    by (simp_all add: np_cast_def)
  with a sh h1 h5 show ?thesis
    by (simp add: str_replace_def ex_grid_def)
qed

subsection \<open>Failed grid detection\<close>

lemma foldl_update_values:
  "map_of (foldl (\<lambda>d var. AList.update var x d) d vars) k = Some v \<Longrightarrow>
   v = x \<or> map_of d k = Some v"
  by (induction vars arbitrary: d) (force simp: update_conv' split: if_splits)+

lemma stack_signal_shape:
  assumes "stack_signal shp n inner runs s = Inr (k, Signal a)"
  shows "(\<exists>m. shape a = shp @ [m]) \<or> (k = inner \<and> (\<exists>m. shape a = [m]))"
proof -
  from assms obtain ys where g: "get_yvecs runs s [0..<n] = Inr ys"
    by (rule stack_signal_yvecs)
  have r: "np_reshape b sh = Inr a' \<Longrightarrow> shape a' = sh" for b sh a'
    by (auto simp: np_reshape_def split: if_splits)
  from assms g show ?thesis
    unfolding stack_signal_def Let_def
    by (auto split: if_splits sum.splits dest!: r)
qed

lemma single_signal_shape:
  assumes "single_signal shp inner sg = Inr (k, Signal a)"
  shows "(\<exists>m. shape a = shp @ [m]) \<or> (k = inner \<and> (\<exists>m. shape a = [m]))"
  using assms unfolding single_signal_def Let_def
  by (auto simp: np_reshape_def split: if_splits sum.splits)

lemma sweep_setup_len:
  "sweep_setup mc ty nb = Inr (swp_vars, swp_len, coords) \<Longrightarrow>
   swp_len = (if mc \<or> ty = ''pac'' then length (data nb) else length (swp_combos nb))"
  by (auto simp: sweep_setup_def Let_def split: list.splits sum.splits if_splits)

text \<open>
  C6, as stated, fails. The group below has four runs, three of them with an outer
  combination, and the three tuples do not form a grid. The outer shape is (3,), the number
  of recorded combinations, not the run count 4; and each of the two sweep variables holds
  the whole list of both coordinate vectors, not its own vector.
\<close>

theorem irregular_sweep_stored_values:
  "convert_to_analysis_data check_is_md False (ex_grid [[0, 0], [0, 1], [1, 0]]) () () ''tran'' =
     Inr ex_irregular_out \<and>
   length (data (ex_grid [[0, 0], [0, 1], [1, 0]])) = 4 \<and>
   map_of (ad_data ex_irregular_out) ''v'' =
     Some (Signal (NDArray [3, 2] (FVec [1, 2, 11, 12, 21, 22]))) \<and>
   map_of (ad_data ex_irregular_out) ''sweep0'' = Some (SwpList [[0, 0, 1], [0, 1, 0]]) \<and>
   map_of (ad_data ex_irregular_out) ''sweep1'' = Some (SwpList [[0, 0, 1], [0, 1, 0]])"
  by (simp add: conv_eval ex_grid_def ex_irregular_out_def)

text \<open>
  C6, amended. When detection fails and the reconstruction returns, the result is flagged
  as not multi-dimensional, the outer shape is the one-dimensional \<open>(swp_len,)\<close>, where
  \<open>swp_len\<close> is the number of recorded outer combinations, or the run count in Monte-Carlo
  mode and for pac, and every sweep variable is a key of the output mapping. Every array of
  the mapping has the shape \<open>(swp_len, m)\<close>, but for the inner-sweep signal when it is kept
  as the vector of run 0.
\<close>

theorem failed_detection_flat_shape:
  assumes conv: "convert_to_analysis_data chk mc nb rtol atol ty = Inr ad"
    and stp: "sweep_setup mc ty nb = Inr (swp_vars, swp_len, coords)"
    and fail: "fst (chk 1 coords rtol atol None) = None"
  shows "\<not> is_md ad \<and>
     swp_len = (if mc \<or> ty = ''pac'' then length (data nb) else length (swp_combos nb)) \<and>
     set swp_vars \<subseteq> fst ` set (ad_data ad) \<and>
     (\<forall>k a. map_of (ad_data ad) k = Some (Signal a) \<longrightarrow>
        (\<exists>m. shape a = [swp_len, m]) \<or> (k = inner_sweep nb \<and> (\<exists>m. shape a = [m])))"
proof -
  obtain vars' len' coords' md shp d0 run0 others where
    a: "sweep_setup mc ty nb = Inr (vars', len', coords')"
    and b: "sweep_data chk rtol atol vars' len' coords' = Inr (md, shp, d0)"
    and c: "data nb = run0 # others"
    and d1: "len' = 0 \<Longrightarrow> store_signals (single_signal shp (inner_sweep nb)) run0 d0 = Inr (ad_data ad)"
    and d2: "0 < len' \<Longrightarrow>
       store_signals (stack_signal shp len' (inner_sweep nb) (data nb)) (map fst run0) d0 =
       Inr (ad_data ad)"
    and f: "is_md ad = md"
    by (rule convert_Inr [OF conv]) blast
  from a stp have eqs: "vars' = swp_vars" "len' = swp_len" "coords' = coords" by simp_all
  obtain vals where ch: "chk 1 coords rtol atol None = (None, vals)"
    using fail by (cases "chk 1 coords rtol atol None") auto
  from b ch eqs have md: "md = False" and shp: "shp = [swp_len]"
    and d0: "d0 = foldl (\<lambda>d var. AList.update var (SwpList coords) d) [] swp_vars"
    by (simp_all add: sweep_data_def)
  have d0v: "map_of d0 k \<noteq> Some (Signal a)" for k a
    using foldl_update_values [of "SwpList coords" "[]" swp_vars k "Signal a"] d0 by auto
  from sweep_data_keys [OF b] eqs have keys0: "fst ` set d0 = set swp_vars" by simp
  have main: "set swp_vars \<subseteq> fst ` set (ad_data ad) \<and>
     (\<forall>k a. map_of (ad_data ad) k = Some (Signal a) \<longrightarrow>
        (\<exists>m. shape a = [swp_len, m]) \<or> (k = inner_sweep nb \<and> (\<exists>m. shape a = [m])))"
  proof (cases "swp_len = 0")
    case True
    let ?f = "single_signal shp (inner_sweep nb)"
    from d1 True eqs have st: "store_signals ?f run0 d0 = Inr (ad_data ad)" by simp
    have "fst ` set (ad_data ad) = fst ` set d0 \<union> (\<lambda>sg. str_replace (fst sg)) ` set run0"
      by (rule store_signals_keys [OF st]) (auto dest: single_signal_key)
    with keys0 have 1: "set swp_vars \<subseteq> fst ` set (ad_data ad)" by auto
    have 2: "(\<exists>m. shape a = [swp_len, m]) \<or> (k = inner_sweep nb \<and> (\<exists>m. shape a = [m]))"
      if "map_of (ad_data ad) k = Some (Signal a)" for k a
    proof -
      from store_signals_origin [OF st that] d0v
      obtain sg where "?f sg = Inr (k, Signal a)" by blast
      from single_signal_shape [OF this] shp show ?thesis by simp
    qed
    from 1 2 show ?thesis by blast
  next
    case False
    let ?f = "stack_signal shp swp_len (inner_sweep nb) (data nb)"
    from d2 False eqs have st: "store_signals ?f (map fst run0) d0 = Inr (ad_data ad)" by simp
    have "fst ` set (ad_data ad) = fst ` set d0 \<union> str_replace ` set (map fst run0)"
      by (rule store_signals_keys [OF st]) (auto dest: stack_signal_key)
    with keys0 have 1: "set swp_vars \<subseteq> fst ` set (ad_data ad)" by auto
    have 2: "(\<exists>m. shape a = [swp_len, m]) \<or> (k = inner_sweep nb \<and> (\<exists>m. shape a = [m]))"
      if "map_of (ad_data ad) k = Some (Signal a)" for k a
    proof -
      from store_signals_origin [OF st that] d0v
      obtain sg where "?f sg = Inr (k, Signal a)" by blast
      from stack_signal_shape [OF this] shp show ?thesis by simp
    qed
    from 1 2 show ?thesis by blast
  qed
  from f md sweep_setup_len [OF stp] main show ?thesis by simp
qed

text \<open>The same incomplete grid: the keys are there and the array of \<^verbatim>\<open>v\<close> is 3 by 2.\<close>

theorem failed_detection_flat_shape_witness:
  "convert_to_analysis_data check_is_md False (ex_grid [[0, 0], [0, 1], [1, 0]]) () () ''tran'' =
     Inr ex_irregular_out \<and>
   sweep_setup False ''tran'' (ex_grid [[0, 0], [0, 1], [1, 0]]) =
     Inr ([''sweep0'', ''sweep1''], 3, [[0, 0, 1], [0, 1, 0]]) \<and>
   fst (check_is_md 1 [[0, 0, 1], [0, 1, 0]] () () None) = None \<and>
   \<not> is_md ex_irregular_out \<and>
   ''sweep0'' \<in> fst ` set (ad_data ex_irregular_out) \<and>
   ''sweep1'' \<in> fst ` set (ad_data ex_irregular_out) \<and>
   map_of (ad_data ex_irregular_out) ''v'' =
     Some (Signal (NDArray [3, 2] (FVec [1, 2, 11, 12, 21, 22]))) \<and>
   ((\<exists>m. shape (NDArray [3, 2] (FVec [1, 2, 11, 12, 21, 22])) = [3, m]) \<or>
    ''v'' = ''time'' \<and> (\<exists>m. shape (NDArray [3, 2] (FVec [1, 2, 11, 12, 21, 22])) = [m]))"
proof -
  let ?nb = "ex_grid [[0, 0], [0, 1], [1, 0]]"
  have h1: "convert_to_analysis_data check_is_md False ?nb () () ''tran'' = Inr ex_irregular_out"
    by (simp add: conv_eval ex_grid_def ex_irregular_out_def)
  have h2: "sweep_setup False ''tran'' ?nb = Inr ([''sweep0'', ''sweep1''], 3, [[0, 0, 1], [0, 1, 0]])"
    by (simp add: conv_eval ex_grid_def)
  have h3: "fst (check_is_md 1 [[0, 0, 1], [0, 1, 0]] () () None) = None"
    by (simp add: check_is_md_def)
  have h4: "map_of (ad_data ex_irregular_out) ''v'' =
      Some (Signal (NDArray [3, 2] (FVec [1, 2, 11, 12, 21, 22])))"
    by (simp add: ex_irregular_out_def)
  from failed_detection_flat_shape [where chk = check_is_md and rtol = "()" and atol = "()",
      OF h1 h2 h3]
  have "\<not> is_md ex_irregular_out"
    and "set [''sweep0'', ''sweep1''] \<subseteq> fst ` set (ad_data ex_irregular_out)"
    and "\<forall>k a. map_of (ad_data ex_irregular_out) k = Some (Signal a) \<longrightarrow>
      (\<exists>m. shape a = [3, m]) \<or> (k = inner_sweep ?nb \<and> (\<exists>m. shape a = [m]))"
    by blast+
  with h1 h2 h3 h4 show ?thesis by (auto simp: ex_grid_def)
qed

subsection \<open>The harmonic sweep of pac\<close>

lemma map_int_upto: "map (\<lambda>i. a + int i) [0..<n] = [a..a + int n - 1]"
proof (induction n)
  case 0
  then show ?case by simp
next
  case (Suc n)
  have "[a..a + int (Suc n) - 1] = [a..a + int n - 1] @ [a + int n]"
    using upto_rec2 [of a "a + int n"] by simp
  with Suc show ?case by simp
qed

lemma linspace_odd:
  "np_linspace_int (- int h) (int h) (2 * h + 1) = [- int h..int h]"
proof -
  have "(int i * (int h - - int h)) div (int (2 * h + 1) - 1) = int i" if "i < 2 * h + 1" for i
  proof (cases "h = 0")
    case True
    with that show ?thesis by simp
  next
    case False
    have "int i * (int h - - int h) = int i * (2 * int h)" by simp
    moreover have "int (2 * h + 1) - 1 = 2 * int h" by simp
    ultimately show ?thesis using False by simp
  qed
  then have "np_linspace_int (- int h) (int h) (2 * h + 1) =
             map (\<lambda>i. - int h + int i) [0..<2 * h + 1]"
    unfolding np_linspace_int_def by (intro map_cong) auto
  also have "\<dots> = [- int h..- int h + int (2 * h + 1) - 1]" by (rule map_int_upto)
  also have "- int h + int (2 * h + 1) - 1 = int h" by simp
  finally show ?thesis .
qed

lemma sweep_setup_pac:
  assumes ok: "\<forall>c \<in> set (swp_combos nb). length c = length (hd (swp_combos nb))"
  shows "sweep_setup mc ''pac'' nb =
         Inr ([''harmonic''], length (data nb),
              [np_linspace_int (- int (length (data nb) div 2)) (int (length (data nb) div 2))
                 (length (data nb))])"
proof (cases "swp_combos nb")
  case Nil
  then show ?thesis by (simp add: sweep_setup_def)
next
  case (Cons c0 cs)
  with ok have "combo_columns (swp_combos nb) (length c0) \<noteq> Inl e" for e
    by (auto simp: combo_columns_def)
  then obtain cols where "combo_columns (swp_combos nb) (length c0) = Inr cols"
    by (cases "combo_columns (swp_combos nb) (length c0)") auto
  with Cons show ?thesis by (simp add: sweep_setup_def)
qed

text \<open>
  C4, as stated, fails for an even number of runs: \<^verbatim>\<open>np.linspace(-H, H, n, dtype=int)\<close>
  yields \<open>n\<close> values, and the integers from \<open>-H\<close> to \<open>H\<close> are \<open>2 * H + 1\<close>. Two runs give
  -1, 1 and four runs give -2, -1, 0, 2.
\<close>

theorem pac_even_run_count:
  "sweep_setup False ''pac'' ex_ragged = Inr ([''harmonic''], 2, [[- 1, 1]]) \<and>
   length (data ex_ragged) = 2 \<and> [- int (2 div 2)..int (2 div 2)] = [- 1, 0, 1] \<and>
   sweep_setup False ''pac'' (ex_grid []) = Inr ([''harmonic''], 4, [[- 2, - 1, 0, 2]]) \<and>
   length (data (ex_grid [])) = 4 \<and> [- int (4 div 2)..int (4 div 2)] = [- 2, - 1, 0, 1, 2]"
  by (simp add: conv_eval ex_ragged_def ex_grid_def upto.simps)

text \<open>
  C4, amended. For the analysis type pac with \<open>n\<close> runs, in Monte-Carlo mode or not and
  with outer combinations or not (of one length, as \<^verbatim>\<open>np.array\<close> needs), the only sweep
  variable is \<^verbatim>\<open>harmonic\<close>, the sweep length is \<open>n\<close> and the coordinate vector is
  \<^verbatim>\<open>np.linspace(-H, H, n, dtype=int)\<close> with \<open>H = n div 2\<close>: \<open>n\<close> values, which are the
  integers from \<open>-H\<close> to \<open>H\<close> when \<open>n\<close> is odd, and -2, -1, 0, 1, 2 for five runs. The
  sweep parameters of the result are corner, harmonic and the inner sweep.
\<close>

theorem pac_harmonic_sweep:
  assumes ok: "\<forall>c \<in> set (swp_combos nb). length c = length (hd (swp_combos nb))"
    and n: "n = length (data nb)"
    and H: "H = n div 2"
  shows "sweep_setup mc ''pac'' nb =
           Inr ([''harmonic''], n, [np_linspace_int (- int H) (int H) n]) \<and>
         length (np_linspace_int (- int H) (int H) n) = n \<and>
         (odd n \<longrightarrow> np_linspace_int (- int H) (int H) n = [- int H..int H]) \<and>
         (n = 5 \<longrightarrow> np_linspace_int (- int H) (int H) n = [- 2, - 1, 0, 1, 2]) \<and>
         (\<forall>ad. convert_to_analysis_data chk mc nb rtol atol ''pac'' = Inr ad \<longrightarrow>
               sweep_params ad =
               ''corner'' # ''harmonic'' # (if inner_sweep nb \<noteq> [] then [inner_sweep nb] else []))"
proof -
  have 1: "sweep_setup mc ''pac'' nb =
           Inr ([''harmonic''], n, [np_linspace_int (- int H) (int H) n])"
    using sweep_setup_pac [OF ok] n H by simp
  have 2: "length (np_linspace_int (- int H) (int H) n) = n"
    by (simp add: np_linspace_int_def)
  have 3: "np_linspace_int (- int H) (int H) n = [- int H..int H]" if "odd n"
  proof -
    from that H have "n = 2 * H + 1" by presburger
    with linspace_odd [of H] show ?thesis by simp
  qed
  have 4: "np_linspace_int (- int H) (int H) n = [- 2, - 1, 0, 1, 2]" if "n = 5"
  proof -
    from that H have "H = 2" by simp
    with that show ?thesis by (simp add: np_linspace_int_def upt_rec)
  qed
  have 5: "sweep_params ad =
           ''corner'' # ''harmonic'' # (if inner_sweep nb \<noteq> [] then [inner_sweep nb] else [])"
    if cv: "convert_to_analysis_data chk mc nb rtol atol ''pac'' = Inr ad" for ad
  proof -
    obtain vars' len' coords' where
      a: "sweep_setup mc ''pac'' nb = Inr (vars', len', coords')"
      and e: "sweep_params ad =
        ''corner'' # vars' @ (if inner_sweep nb \<noteq> [] then [inner_sweep nb] else [])"
      by (rule convert_Inr [OF cv]) blast
    from a 1 have "vars' = [''harmonic'']" by simp
    with e show ?thesis by simp
  qed
  from 1 2 3 4 5 show ?thesis by blast
qed

text \<open>
  Five runs in Monte-Carlo mode, each with an outer combination: the harmonic rule wins.
\<close>

theorem pac_harmonic_sweep_witness:
  "swp_combos ex_pac = [[0], [1], [2], [3], [4]] \<and>
   length (data ex_pac) = 5 \<and>
   sweep_setup True ''pac'' ex_pac = Inr ([''harmonic''], 5, [[- 2, - 1, 0, 1, 2]]) \<and>
   convert_to_analysis_data check_is_md True ex_pac () () ''pac'' =
     Inr \<lparr>sweep_params = [''corner'', ''harmonic'', ''freq''],
          ad_data = [(''harmonic'', SwpVals [- 2, - 1, 0, 1, 2]),
                     (''freq'', Signal (NDArray [1] (FVec [7]))),
                     (''out'', Signal (NDArray [5, 1]
                        (CVec [(1, 2), (1, 3), (1, 4), (1, 5), (1, 6)])))],
          is_md = True\<rparr>"
proof -
  have h1: "\<forall>c \<in> set (swp_combos ex_pac). length c = length (hd (swp_combos ex_pac))"
    by (simp add: ex_pac_def)
  have h2: "5 = length (data ex_pac)" by (simp add: ex_pac_def)
  have h3: "(2::nat) = 5 div 2" by simp
  have cv: "convert_to_analysis_data check_is_md True ex_pac () () ''pac'' =
     Inr \<lparr>sweep_params = [''corner'', ''harmonic'', ''freq''],
          ad_data = [(''harmonic'', SwpVals [- 2, - 1, 0, 1, 2]),
                     (''freq'', Signal (NDArray [1] (FVec [7]))),
                     (''out'', Signal (NDArray [5, 1]
                        (CVec [(1, 2), (1, 3), (1, 4), (1, 5), (1, 6)])))],
          is_md = True\<rparr>"
    by (simp add: conv_eval ex_pac_def)
  from pac_harmonic_sweep [where mc = True and chk = check_is_md and rtol = "()" and atol = "()",
      OF h1 h2 h3]
  have "sweep_setup True ''pac'' ex_pac =
          Inr ([''harmonic''], 5, [np_linspace_int (- int 2) (int 2) 5])"
    and "np_linspace_int (- int 2) (int 2) 5 = [- 2, - 1, 0, 1, 2]"
    by blast+
  with h2 cv show ?thesis by (simp add: ex_pac_def)
qed

subsection \<open>The nominal run of a Monte-Carlo sweep\<close>

lemma populate_dict_nominal:
  assumes "get_info_from_plotname plotname = Inr info"
    and "take 5 (ana_name info) \<noteq> ''__mc_''"
  shows "populate_dict True d plotname blk = Inr d"
  using assms by (simp add: populate_dict_def)

lemma populate_all_append:
  "populate_all mc d (pre @ post) =
   (case populate_all mc d pre of Inl e \<Rightarrow> Inl e | Inr d' \<Rightarrow> populate_all mc d' post)"
  by (induction pre arbitrary: d) (auto split: sum.splits)

lemma linspace_mc: "np_linspace_int 0 (int n - 1) n = map int [0..<n]"
proof -
  have "(int i * (int n - 1 - 0)) div (int n - 1) = int i" if "i < n" for i
  proof (cases "n = 1")
    case True
    with that show ?thesis by simp
  next
    case False
    with that have "int n - 1 \<noteq> 0" by simp
    then show ?thesis by simp
  qed
  then show ?thesis
    unfolding np_linspace_int_def by (intro map_cong) auto
qed

lemma sweep_setup_mc:
  assumes ok: "\<forall>c \<in> set (swp_combos nb). length c = length (hd (swp_combos nb))"
    and nopac: "ty \<noteq> ''pac''"
  shows "sweep_setup True ty nb =
         Inr ([''monte_carlo''], length (data nb), [map int [0..<length (data nb)]])"
proof (cases "swp_combos nb")
  case Nil
  with nopac show ?thesis by (simp add: sweep_setup_def linspace_mc)
next
  case (Cons c0 cs)
  with ok have "combo_columns (swp_combos nb) (length c0) \<noteq> Inl e" for e
    by (auto simp: combo_columns_def)
  then obtain cols where "combo_columns (swp_combos nb) (length c0) = Inr cols"
    by (cases "combo_columns (swp_combos nb) (length c0)") auto
  with Cons nopac show ?thesis by (simp add: sweep_setup_def linspace_mc)
qed

lemmas info_eval = get_info_from_plotname_def match_type_env_def match_inner_def
  is_alpha_def is_digit_def is_alnum_def is_word_def swp_pat_def swp1_pat_def
  int_of_digits_def digit_val_def


lemma nominal_info:
  "get_info_from_plotname ''Plotname: Transient Analysis `tran__tt_25': time = (0 1)\<newline>'' =
   Inr \<lparr>ana_name = ''tran__tt_25'', sim_env = ''tt_25'', ana_type = ''tran'', swp_info = [],
        swp_combo = [], info_inner_sweep = ''time''\<rparr>"
  by code_simp

lemma ex_mc_populate:
  "populate_all True [] (take 2 ex_mc_file @ drop 3 ex_mc_file) =
   Inr [(''tran'', [(''tt_25'', ex_mc_group)])]"
  by code_simp

text \<open>
  C5. In Monte-Carlo mode a block whose plot name is classified and whose analysis name
  does not start with \<^verbatim>\<open>__mc_\<close> leaves the accumulated collection as it was: no group is
  created or extended, and the whole accumulation of a file is the same as without that
  block. A group of \<open>n\<close> runs then gets the single sweep variable \<^verbatim>\<open>monte_carlo\<close> with
  the coordinates \<open>0, \<dots>, n - 1\<close>, for every analysis type but pac, whose harmonic rule
  comes later in the source and wins.
\<close>

theorem monte_carlo_discards_nominal:
  assumes info: "get_info_from_plotname plotname = Inr info"
    and nom: "take 5 (ana_name info) \<noteq> ''__mc_''"
  shows "populate_dict True d plotname blk = Inr d \<and>
         populate_all True d (pre @ (plotname, blk) # post) = populate_all True d (pre @ post) \<and>
         (ty \<noteq> ''pac'' \<and> (\<forall>c \<in> set (swp_combos nb). length c = length (hd (swp_combos nb))) \<longrightarrow>
            sweep_setup True ty nb =
            Inr ([''monte_carlo''], length (data nb), [map int [0..<length (data nb)]]))"
proof -
  note 1 = populate_dict_nominal [OF info nom]
  have 2: "populate_all True d (pre @ (plotname, blk) # post) = populate_all True d (pre @ post)"
  proof (cases "populate_all True d pre")
    case (Inl e)
    then show ?thesis by (simp add: populate_all_append)
  next
    case (Inr d')
    with populate_dict_nominal [OF info nom, of d' blk] show ?thesis
      by (simp add: populate_all_append)
  qed
  from 1 2 sweep_setup_mc [of nb ty] show ?thesis by blast
qed

text \<open>
  Five randomized runs and the nominal run in third place: one group of five runs, and the
  axis 0, 1, 2, 3, 4.
\<close>

theorem monte_carlo_discards_nominal_witness:
  "get_info_from_plotname ''Plotname: Transient Analysis `tran__tt_25': time = (0 1)\<newline>'' =
     Inr \<lparr>ana_name = ''tran__tt_25'', sim_env = ''tt_25'', ana_type = ''tran'', swp_info = [],
          swp_combo = [], info_inner_sweep = ''time''\<rparr> \<and>
   take 5 ''tran__tt_25'' \<noteq> ''__mc_'' \<and>
   populate_dict True [] ''Plotname: Transient Analysis `tran__tt_25': time = (0 1)\<newline>''
     [(''time'', FVec [0, 5]), (''out'', FVec [9, 9])] = Inr [] \<and>
   populate_all True [] ex_mc_file = Inr [(''tran'', [(''tt_25'', ex_mc_group)])] \<and>
   length ex_mc_file = 6 \<and> length (data ex_mc_group) = 5 \<and>
   sweep_setup True ''tran'' ex_mc_group = Inr ([''monte_carlo''], 5, [[0, 1, 2, 3, 4]]) \<and>
   convert_to_analysis_data check_is_md True ex_mc_group () () ''tran'' =
     Inr \<lparr>sweep_params = [''corner'', ''monte_carlo'', ''time''],
          ad_data = [(''monte_carlo'', SwpVals [0, 1, 2, 3, 4]),
                     (''time'', Signal (NDArray [2] (FVec [0, 5]))),
                     (''out'', Signal (NDArray [5, 2] (FVec [1, 2, 3, 4, 5, 6, 7, 8, 9, 10])))],
          is_md = True\<rparr>"
proof -
  let ?p = "''Plotname: Transient Analysis `tran__tt_25': time = (0 1)\<newline>''"
  let ?b = "[(''time'', FVec [0, 5]), (''out'', FVec [9, 9])]"
  let ?i = "\<lparr>ana_name = ''tran__tt_25'', sim_env = ''tt_25'', ana_type = ''tran'', swp_info = [],
          swp_combo = [], info_inner_sweep = ''time''\<rparr>"
  have h2: "take 5 (ana_name ?i) \<noteq> ''__mc_''" by simp
  have split: "ex_mc_file = take 2 ex_mc_file @ (?p, ?b) # drop 3 ex_mc_file"
    by (simp add: ex_mc_file_def)
  have ok: "''tran'' \<noteq> ''pac'' \<and>
      (\<forall>c \<in> set (swp_combos ex_mc_group). length c = length (hd (swp_combos ex_mc_group)))"
    by (simp add: ex_mc_group_def)
  have len: "length (data ex_mc_group) = 5" by (simp add: ex_mc_group_def)
  have cv: "convert_to_analysis_data check_is_md True ex_mc_group () () ''tran'' =
     Inr \<lparr>sweep_params = [''corner'', ''monte_carlo'', ''time''],
          ad_data = [(''monte_carlo'', SwpVals [0, 1, 2, 3, 4]),
                     (''time'', Signal (NDArray [2] (FVec [0, 5]))),
                     (''out'', Signal (NDArray [5, 2] (FVec [1, 2, 3, 4, 5, 6, 7, 8, 9, 10])))],
          is_md = True\<rparr>"
    by (simp add: conv_eval ex_mc_group_def)
  from monte_carlo_discards_nominal [where d = "[]" and blk = "?b" and pre = "take 2 ex_mc_file"
      and post = "drop 3 ex_mc_file" and ty = "''tran''" and nb = ex_mc_group,
      OF nominal_info h2]
  have a: "populate_dict True [] ?p ?b = Inr []"
    and b: "populate_all True [] (take 2 ex_mc_file @ (?p, ?b) # drop 3 ex_mc_file) =
            populate_all True [] (take 2 ex_mc_file @ drop 3 ex_mc_file)"
    and c: "''tran'' \<noteq> ''pac'' \<and>
      (\<forall>c \<in> set (swp_combos ex_mc_group). length c = length (hd (swp_combos ex_mc_group))) \<longrightarrow>
      sweep_setup True ''tran'' ex_mc_group =
      Inr ([''monte_carlo''], length (data ex_mc_group), [map int [0..<length (data ex_mc_group)]])"
    by blast+
  from b split ex_mc_populate
  have b': "populate_all True [] ex_mc_file = Inr [(''tran'', [(''tt_25'', ex_mc_group)])]"
    by simp
  from c ok len have c': "sweep_setup True ''tran'' ex_mc_group =
      Inr ([''monte_carlo''], 5, [[0, 1, 2, 3, 4]])"
    by (simp add: upt_rec)
  have l6: "length ex_mc_file = 6" by (simp add: ex_mc_file_def)
  from nominal_info a b' c' cv len l6 show ?thesis by simp
qed

subsection \<open>The environment list\<close>

lemma convert_types_envs:
  "convert_types chk combine mc rtol atol nb_data st = Inr (ad, envs) \<Longrightarrow> nb_data \<noteq> [] \<Longrightarrow>
   envs = sort (map fst (snd (last nb_data)))"
proof (induction nb_data arbitrary: st)
  case Nil
  then show ?case by simp
next
  case (Cons a rest)
  obtain t sim_env_dict where a: "a = (t, sim_env_dict)" by (cases a)
  from Cons.prems(1) a obtain sub comb where
    r: "convert_types chk combine mc rtol atol rest
          (AList.update t comb (fst st), sort (map fst sim_env_dict)) = Inr (ad, envs)"
    by (auto simp: Let_def split: sum.splits)
  show ?case
  proof (cases "rest = []")
    case True
    with r a show ?thesis by simp
  next
    case False
    with Cons.IH [OF r] show ?thesis by simp
  qed
qed

text \<open>
  C10. When \<^verbatim>\<open>convert_to_sim_data\<close> returns, the environment list of the \<^verbatim>\<open>SimData\<close> is the
  sorted list of the environment keys of the last analysis type of the collection, so an
  environment that this last type has not seen is not in it, whatever the earlier types saw.
\<close>

theorem sim_envs_of_last_analysis_type:
  assumes conv: "convert_to_sim_data chk combine mc nb_data rtol atol = Inr sd"
    and ne: "nb_data \<noteq> []"
  shows "sd_sim_envs sd = sort (map fst (snd (last nb_data))) \<and>
         sorted (sd_sim_envs sd) \<and>
         set (sd_sim_envs sd) = fst ` set (snd (last nb_data)) \<and>
         (\<forall>env. env \<notin> fst ` set (snd (last nb_data)) \<longrightarrow> env \<notin> set (sd_sim_envs sd))"
proof -
  from conv obtain ad envs where
    c: "convert_types chk combine mc rtol atol nb_data ([], []) = Inr (ad, envs)"
    and sd: "sd_sim_envs sd = envs"
    by (auto simp: convert_to_sim_data_def split: sum.splits)
  from convert_types_envs [OF c ne] sd
  have "sd_sim_envs sd = sort (map fst (snd (last nb_data)))" by simp
  then show ?thesis by simp
qed

text \<open>
  Two types, the first with the environments tt_25 and ff_m40, the last with tt_25 only.
\<close>

theorem sim_envs_of_last_analysis_type_witness:
  "ex_nb_data \<noteq> [] \<and>
   map fst (snd (ex_nb_data ! 0)) = [''tt_25'', ''ff_m40''] \<and>
   map fst (snd (last ex_nb_data)) = [''tt_25''] \<and>
   (\<exists>sd. convert_to_sim_data check_is_md combine_ana_sim_envs True ex_nb_data () () = Inr sd \<and>
        sd_sim_envs sd = [''tt_25''] \<and> ''ff_m40'' \<notin> set (sd_sim_envs sd) \<and>
        map fst (sd_ana_dict sd) = [''tran'', ''ac''])"
proof -
  have ne: "ex_nb_data \<noteq> []" by (simp add: ex_nb_data_def)
  have one: "convert_to_analysis_data check_is_md True ex_one_run () () t =
     Inr \<lparr>sweep_params = [''corner'', if t = ''pac'' then ''harmonic'' else ''monte_carlo'', ''time''],
          ad_data = [(if t = ''pac'' then ''harmonic'' else ''monte_carlo'', SwpVals [0]),
                     (''time'', Signal (NDArray [2] (FVec [0, 5]))),
                     (''out'', Signal (NDArray [1, 2] (FVec [1, 2])))],
          is_md = True\<rparr>" for t
    by (simp add: conv_eval ex_one_run_def)
  obtain sd where cv: "convert_to_sim_data check_is_md combine_ana_sim_envs True ex_nb_data () () =
      Inr sd" and keys: "map fst (sd_ana_dict sd) = [''tran'', ''ac'']"
    by (simp add: convert_to_sim_data_def ex_nb_data_def one)
  from sim_envs_of_last_analysis_type [OF cv ne]
  have "sd_sim_envs sd = sort (map fst (snd (last ex_nb_data)))" by blast
  then have "sd_sim_envs sd = [''tt_25'']" by (simp add: ex_nb_data_def)
  with cv keys ne show ?thesis by (auto simp: ex_nb_data_def)
qed

subsection \<open>The type flag\<close>

lemma flag_type_cases:
  "flag_type t = Inr Real \<longleftrightarrow> t = ''real''"
  "flag_type t = Inr Complex \<longleftrightarrow> t = ''complex''"
  "(\<exists>k. flag_type t = Inr k) \<longleftrightarrow> t = ''real'' \<or> t = ''complex''"
  "(\<exists>e. flag_type t = Inl e) \<longleftrightarrow> t \<noteq> ''real'' \<and> t \<noteq> ''complex''"
  by (auto simp: flag_type_def)

text \<open>
  C7. When the first line of a block has a second token, the type flag, that is neither
  \<^verbatim>\<open>real\<close> nor \<^verbatim>\<open>complex\<close>, \<^verbatim>\<open>parse_analysis\<close> fails with the error of line 82, a
  \<^verbatim>\<open>ValueError\<close> that names the flag (the FormatError of the spec); for the two tokens
  \<^verbatim>\<open>real\<close> and \<^verbatim>\<open>complex\<close>, and only for them, the value kind is found and that error is
  not raised.
\<close>

theorem unrecognized_flag_is_format_error:
  assumes dec: "decode_ascii (fst (readline f)) = Inr ln"
    and two: "1 < length (py_split ln)"
    and t: "t = py_split ln ! 1"
  shows "(t \<noteq> ''real'' \<and> t \<noteq> ''complex'' \<longrightarrow>
            parse_analysis f = Inl (ValueError (''Flag type '' @ t @ '' is not recognized.''))) \<and>
         (t = ''real'' \<or> t = ''complex'' \<longrightarrow>
            parse_analysis f \<noteq> Inl (ValueError (''Flag type '' @ t @ '' is not recognized.''))) \<and>
         (flag_type t = Inr Real \<longleftrightarrow> t = ''real'') \<and>
         (flag_type t = Inr Complex \<longleftrightarrow> t = ''complex'') \<and>
         ((\<exists>k. flag_type t = Inr k) \<longleftrightarrow> t = ''real'' \<or> t = ''complex'')"
proof -
  have 1: "parse_analysis f = Inl (ValueError (''Flag type '' @ t @ '' is not recognized.''))"
    if "t \<noteq> ''real'' \<and> t \<noteq> ''complex''"
    using that dec two t by (simp add: parse_analysis_def flag_type_def Let_def)
  have intmsg: "read_last_int g \<noteq> Inl (ValueError (''Flag type '' @ u))" for g u
    by (auto simp: read_last_int_def py_int_def decode_ascii_def Let_def
        split: sum.splits list.splits if_splits)
  have names: "read_var_names k idx g \<noteq> Inl (ValueError m)" for k idx g m
    by (induction k arbitrary: idx g)
       (auto simp: Let_def decode_ascii_def split: sum.splits if_splits)
  have 2: "parse_analysis f \<noteq> Inl (ValueError (''Flag type '' @ t @ '' is not recognized.''))"
    if "t = ''real'' \<or> t = ''complex''"
  proof -
    from that obtain k where k: "flag_type (py_split ln ! 1) = Inr k"
      using t by (auto simp: flag_type_def)
    show ?thesis
      using dec two k intmsg names
      by (auto simp: parse_analysis_def Let_def split: sum.splits prod.splits)
  qed
  from 1 2 flag_type_cases [of t] show ?thesis by blast
qed

theorem unrecognized_flag_is_format_error_witness:
  "decode_ascii (fst (readline ''Flags: imaginary\<newline>No. Variables: 1\<newline>'')) =
     Inr ''Flags: imaginary\<newline>'' \<and>
   py_split ''Flags: imaginary\<newline>'' = [''Flags:'', ''imaginary''] \<and>
   parse_analysis ''Flags: imaginary\<newline>No. Variables: 1\<newline>'' =
     Inl (ValueError ''Flag type imaginary is not recognized.'') \<and>
   flag_type ''real'' = Inr Real \<and> flag_type ''complex'' = Inr Complex"
proof -
  let ?f = "''Flags: imaginary\<newline>No. Variables: 1\<newline>''"
  have h1: "decode_ascii (fst (readline ?f)) = Inr ''Flags: imaginary\<newline>''"
    by code_simp
  have sp: "py_split ''Flags: imaginary\<newline>'' = [''Flags:'', ''imaginary'']"
    by code_simp
  have h2: "1 < length (py_split ''Flags: imaginary\<newline>'')" by (simp add: sp)
  have h3: "''imaginary'' = py_split ''Flags: imaginary\<newline>'' ! 1" by (simp add: sp)
  from unrecognized_flag_is_format_error [OF h1 h2 h3]
  have "parse_analysis ?f = Inl (ValueError (''Flag type '' @ ''imaginary'' @ '' is not recognized.''))"
    by simp
  with h1 sp show ?thesis by (simp add: flag_type_def)
qed

end
